theory Spec2Isabelle
  imports Complex_Main "HOL-Library.Multiset"
begin

section \<open>Cards\<close>

text \<open>
  Both blackjack modules declare the same \<^verbatim>\<open>Card\<close> class: a rank out of
  \<^verbatim>\<open>['A','2',...,'10','J','Q','K']\<close> and a suit out of four symbols; the constructor
  raises \<^verbatim>\<open>ValueError\<close> for anything else, so a constructed card always has one of the
  thirteen ranks and one of the four suits.
\<close>

datatype rank = Ace | Two | Three | Four | Five | Six | Seven | Eight | Nine | Ten
  | Jack | Queen | King

datatype suit = Spades | Hearts | Diamonds | Clubs

datatype card = Card (rank: rank) (suit: suit)

definition RANKS :: "rank list" where
  "RANKS = [Ace, Two, Three, Four, Five, Six, Seven, Eight, Nine, Ten, Jack, Queen, King]"

definition SUITS :: "suit list" where
  "SUITS = [Spades, Hearts, Diamonds, Clubs]"

text \<open>\<^verbatim>\<open>int(self.rank)\<close> for the ranks that are numerals.\<close>

fun rank_int :: "rank \<Rightarrow> int" where
  "rank_int Two = 2"
| "rank_int Three = 3"
| "rank_int Four = 4"
| "rank_int Five = 5"
| "rank_int Six = 6"
| "rank_int Seven = 7"
| "rank_int Eight = 8"
| "rank_int Nine = 9"
| "rank_int Ten = 10"
| "rank_int r = 0"

definition card_value :: "card \<Rightarrow> int" where
  "card_value c =
     (if rank c \<in> set [Jack, Queen, King] then 10
      else if rank c = Ace then 11
      else rank_int (rank c))"

section \<open>Hands\<close>

text \<open>
  A hand is the list \<^verbatim>\<open>Hand.cards\<close>, in the order the cards were added.
  \<^verbatim>\<open>Hand.value\<close> is the same in both modules:
  \<^verbatim>\<open>
    total = sum(card.value() for card in self.cards)
    aces = sum(1 for card in self.cards if card.rank == 'A')
    while total > 21 and aces > 0:
        total -= 10
        aces -= 1
    return total
  \<close>
\<close>

type_synonym hand = "card list"

definition hand_total :: "hand \<Rightarrow> int" where
  "hand_total h = sum_list (map card_value h)"

definition hand_aces :: "hand \<Rightarrow> int" where
  "hand_aces h = sum_list (map (\<lambda>c. 1) (filter (\<lambda>c. rank c = Ace) h))"

function ace_loop :: "int \<Rightarrow> int \<Rightarrow> int" where
  "ace_loop tot aces =
     (if tot > 21 \<and> aces > 0 then ace_loop (tot - 10) (aces - 1) else tot)"
  by pat_completeness auto
termination
  by (relation "measure (\<lambda>(tot, aces). nat aces)") auto

declare ace_loop.simps [simp del]

definition hand_value :: "hand \<Rightarrow> int" where
  "hand_value h = ace_loop (hand_total h) (hand_aces h)"

definition is_blackjack :: "hand \<Rightarrow> bool" where
  "is_blackjack h \<longleftrightarrow> length h = 2 \<and> hand_value h = 21"

definition can_split :: "hand \<Rightarrow> bool" where
  "can_split h \<longleftrightarrow> length h = 2 \<and> rank (h ! 0) = rank (h ! 1)"

section \<open>Bounds on the value of a hand\<close>

lemma ace_loop_demotes:
  "0 \<le> aces \<Longrightarrow>
   \<exists>k. 0 \<le> k \<and> k \<le> aces \<and> ace_loop tot aces = tot - 10 * k
     \<and> (\<forall>j. 0 \<le> j \<and> j < k \<longrightarrow> 21 < tot - 10 * j)
     \<and> (k = aces \<or> tot - 10 * k \<le> 21)"
proof (induction tot aces rule: ace_loop.induct)
  case (1 tot aces)
  show ?case
  proof (cases "tot > 21 \<and> aces > 0")
    case False
    then have "ace_loop tot aces = tot"
      by (simp add: ace_loop.simps)
    with False "1.prems" show ?thesis
      by (intro exI [of _ 0]) auto
  next
    case True
    then have step: "ace_loop tot aces = ace_loop (tot - 10) (aces - 1)"
      by (subst ace_loop.simps) simp
    from True have "0 \<le> aces - 1" by simp
    from "1.IH" [OF True this] obtain k where k:
      "0 \<le> k" "k \<le> aces - 1" "ace_loop (tot - 10) (aces - 1) = tot - 10 - 10 * k"
      "\<forall>j. 0 \<le> j \<and> j < k \<longrightarrow> 21 < tot - 10 - 10 * j"
      "k = aces - 1 \<or> tot - 10 - 10 * k \<le> 21"
      by blast
    have low: "\<forall>j. 0 \<le> j \<and> j < k + 1 \<longrightarrow> 21 < tot - 10 * j"
    proof (intro allI impI)
      fix j :: int
      assume j: "0 \<le> j \<and> j < k + 1"
      show "21 < tot - 10 * j"
      proof (cases "j = 0")
        case True
        with \<open>tot > 21 \<and> aces > 0\<close> show ?thesis by simp
      next
        case False
        with j have "0 \<le> j - 1 \<and> j - 1 < k" by simp
        with k(4) have "21 < tot - 10 - 10 * (j - 1)" by blast
        then show ?thesis by simp
      qed
    qed
    from k(1,2,3,5) step low show ?thesis
      by (intro exI [of _ "k + 1"]) auto
  qed
qed

lemma hand_aces_length: "hand_aces h = int (length (filter (\<lambda>c. rank c = Ace) h))"
  unfolding hand_aces_def by (induction h) auto

lemma hand_aces_nonneg: "0 \<le> hand_aces h"
  by (simp add: hand_aces_length)

section \<open>The shoe and the probability calculator of \<^verbatim>\<open>advanced-blackjack-ai.py\<close>\<close>

text \<open>
  \<^verbatim>\<open>Deck.cards\<close> is a Python list; \<^verbatim>\<open>draw\<close> raises
  \<^verbatim>\<open>ValueError("Deck is empty")\<close> on an empty list and otherwise pops the last
  element. The exceptions the modelled code can raise are values of \<open>error\<close>.
\<close>

datatype error = DeckIsEmpty | ZeroDivisionError | IndexError

definition draw :: "card list \<Rightarrow> error + card \<times> card list" where
  "draw cards = (if cards = [] then Inl DeckIsEmpty else Inr (last cards, butlast cards))"

text \<open>
  \<^verbatim>\<open>calculate_bust_probability\<close> fills a \<^verbatim>\<open>defaultdict(int)\<close> keyed by card
  value; the dictionary is an association list in insertion order, and reading a key
  that is absent gives 0.
  \<^verbatim>\<open>
    remaining_cards = defaultdict(int)
    for card in self.deck.cards:
        remaining_cards[card.value()] += 1
    total_cards = sum(remaining_cards.values())
    bust_cards = sum(remaining_cards[i] for i in range(22 - player_hand.value(), 11))
    return bust_cards / total_cards if total_cards > 0 else 0
  \<close>
  The quotient of the two integers is a Python float; the model keeps the exact
  rational it rounds.
\<close>

type_synonym histogram = "(int \<times> nat) list"

fun increment :: "int \<Rightarrow> histogram \<Rightarrow> histogram" where
  "increment k [] = [(k, 1)]"
| "increment k ((k', n) # m) = (if k = k' then (k', n + 1) # m else (k', n) # increment k m)"

definition lookup_default :: "histogram \<Rightarrow> int \<Rightarrow> nat" where
  "lookup_default m k = (case map_of m k of None \<Rightarrow> 0 | Some n \<Rightarrow> n)"

definition remaining_cards :: "card list \<Rightarrow> histogram" where
  "remaining_cards cards = foldl (\<lambda>m c. increment (card_value c) m) [] cards"

text \<open>\<^verbatim>\<open>range(a, b)\<close> over the integers.\<close>

definition py_range :: "int \<Rightarrow> int \<Rightarrow> int list" where
  "py_range a b = [a..b - 1]"

definition calculate_bust_probability :: "card list \<Rightarrow> hand \<Rightarrow> rat" where
  "calculate_bust_probability cards player_hand =
     (let m = remaining_cards cards;
          total_cards = sum_list (map snd m);
          bust_cards = sum_list (map (lookup_default m) (py_range (22 - hand_value player_hand) 11))
      in if total_cards > 0 then of_nat bust_cards / of_nat total_cards else 0)"

text \<open>
  The hard total of a hand counts every ace as 1. It bounds the value from below and
  grows with every card, which is why the dealer loop below ends.
\<close>

definition hard_total :: "hand \<Rightarrow> int" where
  "hard_total h = hand_total h - 10 * hand_aces h"

lemma hard_total_le_value: "hard_total h \<le> hand_value h"
proof -
  from ace_loop_demotes [OF hand_aces_nonneg, of h "hand_total h"]
  obtain k where "k \<le> hand_aces h" "hand_value h = hand_total h - 10 * k"
    unfolding hand_value_def by blast
  then show ?thesis by (simp add: hard_total_def)
qed

lemma card_value_hard: "1 \<le> card_value c - 10 * (if rank c = Ace then 1 else 0)"
  by (cases c; cases "rank c") (auto simp: card_value_def)

lemma hard_total_snoc: "hard_total h + 1 \<le> hard_total (h @ [c])"
  using card_value_hard [of c]
  by (auto simp: hard_total_def hand_total_def hand_aces_def)

text \<open>
  \<^verbatim>\<open>
    def simulate_dealer_hand(self, up_card, num_simulations=10000):
        dealer_busts = 0
        for _ in range(num_simulations):
            dealer_hand = Hand([up_card])
            while dealer_hand.value() < 17:
                dealer_hand.add_card(self.deck.draw())
                self.deck.cards.append(dealer_hand.cards[-1])
            if dealer_hand.value() > 21:
                dealer_busts += 1
        return dealer_busts / num_simulations
  \<close>
  The shoe is mutated, so each function returns the shoe it leaves behind beside its
  result, also when it raises.
\<close>

function dealer_trial :: "card list \<Rightarrow> hand \<Rightarrow> (error + hand) \<times> card list" where
  "dealer_trial cards dealer_hand =
     (if hand_value dealer_hand < 17 then
        (case draw cards of
           Inl e \<Rightarrow> (Inl e, cards)
         | Inr (c, cards') \<Rightarrow>
             dealer_trial (cards' @ [last (dealer_hand @ [c])]) (dealer_hand @ [c]))
      else (Inr dealer_hand, cards))"
  by pat_completeness auto
termination
proof (relation "measure (\<lambda>(cards, dealer_hand). nat (17 - hard_total dealer_hand))", goal_cases)
  case 1
  show ?case by simp
next
  case (2 cards dealer_hand x c cards')
  from \<open>hand_value dealer_hand < 17\<close> hard_total_le_value [of dealer_hand]
    hard_total_snoc [of dealer_hand c]
  show ?case by simp
qed

declare dealer_trial.simps [simp del]

fun sim_trials :: "nat \<Rightarrow> card \<Rightarrow> card list \<Rightarrow> nat \<Rightarrow> (error + nat) \<times> card list" where
  "sim_trials 0 up_card cards dealer_busts = (Inr dealer_busts, cards)"
| "sim_trials (Suc n) up_card cards dealer_busts =
     (case dealer_trial cards [up_card] of
        (Inl e, cards') \<Rightarrow> (Inl e, cards')
      | (Inr dealer_hand, cards') \<Rightarrow>
          sim_trials n up_card cards'
            (if hand_value dealer_hand > 21 then dealer_busts + 1 else dealer_busts))"

definition simulate_dealer_hand :: "card list \<Rightarrow> card \<Rightarrow> nat \<Rightarrow> (error + rat) \<times> card list" where
  "simulate_dealer_hand cards up_card num_simulations =
     (case sim_trials num_simulations up_card cards 0 of
        (Inl e, cards') \<Rightarrow> (Inl e, cards')
      | (Inr dealer_busts, cards') \<Rightarrow>
          (if num_simulations = 0 then Inl ZeroDivisionError
           else Inr (of_nat dealer_busts / of_nat num_simulations), cards'))"

datatype action = Hit | Stand | Double | Split

text \<open>The totals table, which is all of \<^verbatim>\<open>basic_strategy\<close> in \<^verbatim>\<open>advanced-blackjack-ai.py\<close>.\<close>

definition totals_table :: "int \<Rightarrow> int \<Rightarrow> action" where
  "totals_table player_value dealer_value =
     (if player_value \<ge> 17 then Stand
      else if player_value \<le> 11 then Hit
      else if player_value = 12 then (if 4 \<le> dealer_value \<and> dealer_value \<le> 6 then Stand else Hit)
      else if 13 \<le> player_value \<and> player_value \<le> 16 then
        (if 2 \<le> dealer_value \<and> dealer_value \<le> 6 then Stand else Hit)
      else Stand)"

definition ai_basic_strategy :: "hand \<Rightarrow> card \<Rightarrow> action" where
  "ai_basic_strategy player_hand dealer_up_card =
     totals_table (hand_value player_hand) (card_value dealer_up_card)"

text \<open>
  \<^verbatim>\<open>recommend_action\<close> of \<^verbatim>\<open>advanced-blackjack-ai.py\<close>. It computes the basic
  recommendation and both probabilities first (the dealer simulation with its default
  of 10000 trials, which raises on an empty shoe), then runs the \<^verbatim>\<open>if/elif\<close> chain.
  \<^verbatim>\<open>self.true_count\<close> is a quotient of integers, kept as a rational, and the
  thresholds 0.6 and 0.5 are the rationals 6/10 and 1/2.
\<close>

definition ai_recommend_action :: "card list \<Rightarrow> rat \<Rightarrow> hand \<Rightarrow> card \<Rightarrow> (error + action) \<times> card list" where
  "ai_recommend_action cards true_count player_hand dealer_up_card =
     (let basic_recommendation = ai_basic_strategy player_hand dealer_up_card;
          bust_prob = calculate_bust_probability cards player_hand
      in case simulate_dealer_hand cards dealer_up_card 10000 of
           (Inl e, cards') \<Rightarrow> (Inl e, cards')
         | (Inr dealer_bust_prob, cards') \<Rightarrow>
             (Inr (if true_count > 2 \<and> hand_value player_hand = 16 \<and> card_value dealer_up_card = 10
                   then Stand
                   else if bust_prob > 6 / 10 then Stand
                   else if dealer_bust_prob > 1 / 2 \<and> hand_value player_hand \<ge> 12 then Stand
                   else basic_recommendation), cards'))"

section \<open>The strategy of \<^verbatim>\<open>advanced-blackjack-simulation.py\<close>\<close>

text \<open>
  \<^verbatim>\<open>basic_strategy\<close> of the simulation module has three blocks. The first two return
  from some of their branches and fall through otherwise (\<open>None\<close> here); the third is
  the totals table.
  \<^verbatim>\<open>
    if player_hand.can_split():
        if player_value in [16, 18]:  # Always split 8s and Aces
            return "Split"
        elif player_value == 20:  # Never split 10s
            return "Stand"
        elif player_value in [4, 6]:
            return "Split" if dealer_value in [2, 3, 4, 5, 6] else "Hit"
        elif player_value == 12:
            return "Split" if dealer_value in [2, 3, 4, 5, 6] else "Hit"
        elif player_value == 14:
            return "Split" if dealer_value in [2, 3, 4, 5, 6, 7] else "Hit"
    if len(player_hand.cards) == 2:  # Consider doubling down
        if player_value == 11:
            return "Double" if dealer_value != 11 else "Hit"
        elif player_value == 10:
            return "Double" if dealer_value < 10 else "Hit"
        elif player_value == 9:
            return "Double" if 3 <= dealer_value <= 6 else "Hit"
  \<close>
\<close>

definition split_table :: "int \<Rightarrow> int \<Rightarrow> action option" where
  "split_table player_value dealer_value =
     (if player_value \<in> set [16, 18] then Some Split
      else if player_value = 20 then Some Stand
      else if player_value \<in> set [4, 6] then
        Some (if dealer_value \<in> set [2, 3, 4, 5, 6] then Split else Hit)
      else if player_value = 12 then
        Some (if dealer_value \<in> set [2, 3, 4, 5, 6] then Split else Hit)
      else if player_value = 14 then
        Some (if dealer_value \<in> set [2, 3, 4, 5, 6, 7] then Split else Hit)
      else None)"

definition double_table :: "int \<Rightarrow> int \<Rightarrow> action option" where
  "double_table player_value dealer_value =
     (if player_value = 11 then Some (if dealer_value \<noteq> 11 then Double else Hit)
      else if player_value = 10 then Some (if dealer_value < 10 then Double else Hit)
      else if player_value = 9 then
        Some (if 3 \<le> dealer_value \<and> dealer_value \<le> 6 then Double else Hit)
      else None)"

definition basic_strategy :: "hand \<Rightarrow> card \<Rightarrow> action" where
  "basic_strategy player_hand dealer_up_card =
     (let player_value = hand_value player_hand;
          dealer_value = card_value dealer_up_card
      in case (if can_split player_hand then split_table player_value dealer_value else None) of
           Some a \<Rightarrow> a
         | None \<Rightarrow>
             (case (if length player_hand = 2 then double_table player_value dealer_value else None) of
                Some a \<Rightarrow> a
              | None \<Rightarrow> totals_table player_value dealer_value))"

section \<open>The card counter\<close>

text \<open>
  \<^verbatim>\<open>CardCounter\<close> keeps the counting system's name, the running count
  (\<^verbatim>\<open>self.count\<close>), the true count and the decks remaining. The last two are Python
  floats; the model keeps the rationals they approximate.
\<close>

record card_counter =
  system :: string
  count_cc :: int
  true_count :: rat
  decks_remaining :: rat

definition CardCounter :: "string \<Rightarrow> card_counter" where
  "CardCounter sys = \<lparr>system = sys, count_cc = 0, true_count = 0, decks_remaining = 6\<rparr>"

text \<open>The change the \<^verbatim>\<open>if/elif\<close> chain of \<^verbatim>\<open>update\<close> makes to the running count.\<close>

definition count_change :: "string \<Rightarrow> int \<Rightarrow> int" where
  "count_change sys v =
     (if sys = ''Hi-Lo'' then
        (if v \<in> set [10, 11] then - 1 else if 2 \<le> v \<and> v \<le> 6 then 1 else 0)
      else if sys = ''KO'' then
        (if v \<in> set [10, 11] then - 1 else if 2 \<le> v \<and> v \<le> 7 then 1 else 0)
      else if sys = ''Omega II'' then
        (if v \<in> set [10, 11] then - 2
         else if v \<in> set [2, 3, 7] then 1
         else if v \<in> set [4, 5, 6] then 2
         else if v = 9 then - 1
         else 0)
      else 0)"

definition update :: "card_counter \<Rightarrow> card \<Rightarrow> card_counter" where
  "update cc c =
     (let cnt = count_cc cc + count_change (system cc) (card_value c);
          dr = max 1 (decks_remaining cc - 1 / 52)
      in cc\<lparr>count_cc := cnt, decks_remaining := dr, true_count := of_int cnt / dr\<rparr>)"

section \<open>The random source\<close>

text \<open>
  The simulation draws from Python's process-wide generator. The model makes the
  generator's future explicit: \<open>outputs\<close> is the sequence of raw numbers it will
  produce and \<open>position\<close> counts those consumed. \<^verbatim>\<open>random.random()\<close> returns a
  multiple of \<open>1 / 2 ^ 53\<close> in \<open>[0, 1)\<close>; \<^verbatim>\<open>random.choice\<close> and \<^verbatim>\<open>random.shuffle\<close> pick
  indices below a bound. How the library turns a raw number into such a value is not
  the repository's code; here the raw number is reduced modulo \<open>2 ^ 53\<close> or modulo
  the bound, so that every value in range can occur.
\<close>

record random_state =
  outputs :: "nat \<Rightarrow> nat"
  position :: nat

definition random_random :: "random_state \<Rightarrow> rat \<times> random_state" where
  "random_random g =
     (of_nat (outputs g (position g) mod 2 ^ 53) / 2 ^ 53, g\<lparr>position := position g + 1\<rparr>)"

definition randbelow :: "nat \<Rightarrow> random_state \<Rightarrow> nat \<times> random_state" where
  "randbelow n g = (outputs g (position g) mod n, g\<lparr>position := position g + 1\<rparr>)"

definition random_choice :: "'a list \<Rightarrow> random_state \<Rightarrow> 'a \<times> random_state" where
  "random_choice seq g = (case randbelow (length seq) g of (i, g') \<Rightarrow> (seq ! i, g'))"

text \<open>
  \<^verbatim>\<open>random.shuffle(x)\<close>: for \<open>i\<close> from \<open>len(x) - 1\<close> down to 1, pick \<open>j\<close> below
  \<open>i + 1\<close> and swap \<open>x[i]\<close> with \<open>x[j]\<close>.
\<close>

fun shuffle_loop :: "nat \<Rightarrow> 'a list \<Rightarrow> random_state \<Rightarrow> 'a list \<times> random_state" where
  "shuffle_loop 0 x g = (x, g)"
| "shuffle_loop (Suc k) x g =
     (case randbelow (Suc k + 1) g of
        (j, g') \<Rightarrow> shuffle_loop k (x[Suc k := x ! j, j := x ! Suc k]) g')"

definition shuffle :: "'a list \<Rightarrow> random_state \<Rightarrow> 'a list \<times> random_state" where
  "shuffle x g = shuffle_loop (length x - 1) x g"

section \<open>The shoe and the players of the simulation\<close>

text \<open>
  \<^verbatim>\<open>Deck(num_decks)\<close> builds
  \<^verbatim>\<open>[Card(rank, suit) for _ in range(num_decks) for rank in RANKS for suit in SUITS]\<close>
  and shuffles it.
\<close>

definition fresh_cards :: "nat \<Rightarrow> card list" where
  "fresh_cards num_decks =
     concat (replicate num_decks (concat (map (\<lambda>r. map (\<lambda>s. Card r s) SUITS) RANKS)))"

definition Deck :: "nat \<Rightarrow> random_state \<Rightarrow> card list \<times> random_state" where
  "Deck num_decks g = shuffle (fresh_cards num_decks) g"

record blackjack_ai =
  deck :: "card list"
  card_counter :: card_counter

definition BlackjackAI :: "nat \<Rightarrow> string \<Rightarrow> random_state \<Rightarrow> blackjack_ai \<times> random_state" where
  "BlackjackAI num_decks card_counting_system g =
     (case Deck num_decks g of
        (cards, g') \<Rightarrow> (\<lparr>deck = cards, card_counter = CardCounter card_counting_system\<rparr>, g'))"

text \<open>
  \<^verbatim>\<open>recommend_action\<close> of the simulation module: the basic strategy with two
  deviations when the true count is above 2.
\<close>

definition recommend_action :: "blackjack_ai \<Rightarrow> hand \<Rightarrow> card \<Rightarrow> action" where
  "recommend_action a player_hand dealer_up_card =
     (let basic_recommendation = basic_strategy player_hand dealer_up_card
      in if true_count (card_counter a) > 2 then
           (if hand_value player_hand = 16 \<and> card_value dealer_up_card = 10 then Stand
            else if basic_recommendation = Hit \<and> hand_value player_hand = 12 then Stand
            else basic_recommendation)
         else basic_recommendation)"

text \<open>
  A \<^verbatim>\<open>PlayerSimulator\<close> refers to its \<^verbatim>\<open>BlackjackAI\<close> object, which several
  players may share; \<open>ai\<close> is the object's address in the store of the table below.
  The optional classifier is known only through \<^verbatim>\<open>predict\<close>, a function from the
  feature list to an action label.
\<close>

record player_simulator =
  ai :: nat
  skill_level :: rat
  bankroll :: rat
  bet_size :: rat
  ml_model :: "(rat list \<Rightarrow> action) option"

text \<open>
  \<^verbatim>\<open>
    def make_decision(self, hand, dealer_up_card):
        optimal_decision = self.ai.recommend_action(hand, dealer_up_card)
        if self.ml_model:
            features = [hand.value(), dealer_up_card.value(), self.ai.card_counter.true_count]
            ml_decision = self.ml_model.predict([features])[0]
            if random.random() < self.skill_level:
                return ml_decision if random.random() < 0.5 else optimal_decision
        if random.random() < self.skill_level:
            return optimal_decision
        else:
            return random.choice(["Hit", "Stand", "Double", "Split"])
  \<close>
  The function reads the player's AI object \<open>a\<close> and consumes random numbers.
\<close>

definition skill_or_random :: "rat \<Rightarrow> action \<Rightarrow> random_state \<Rightarrow> action \<times> random_state" where
  "skill_or_random skill optimal_decision g =
     (case random_random g of
        (r, g') \<Rightarrow>
          if r < skill then (optimal_decision, g')
          else random_choice [Hit, Stand, Double, Split] g')"

definition make_decision ::
  "player_simulator \<Rightarrow> blackjack_ai \<Rightarrow> hand \<Rightarrow> card \<Rightarrow> random_state \<Rightarrow> action \<times> random_state" where
  "make_decision p a h dealer_up_card g =
     (let optimal_decision = recommend_action a h dealer_up_card
      in case ml_model p of
           None \<Rightarrow> skill_or_random (skill_level p) optimal_decision g
         | Some predict \<Rightarrow>
             (let features = [of_int (hand_value h), of_int (card_value dealer_up_card),
                              true_count (card_counter a)];
                  ml_decision = predict features
              in case random_random g of
                   (r1, g1) \<Rightarrow>
                     if r1 < skill_level p then
                       (case random_random g1 of
                          (r2, g2) \<Rightarrow> (if r2 < 1 / 2 then ml_decision else optimal_decision, g2))
                     else skill_or_random (skill_level p) optimal_decision g1))"

section \<open>One round of \<^verbatim>\<open>simulate_game\<close>\<close>

text \<open>
  The table holds the store of \<^verbatim>\<open>BlackjackAI\<close> objects (by address), the players in
  seat order and the random source. \<open>trace\<close> records, in order, each card drawn from a
  shoe, each settlement of a hand (seat and hand index) and each call of
  \<^verbatim>\<open>CardCounter.update\<close> (the AI object's address and the card); nothing reads it.
  The players of the list are distinct objects; bankrolls and bets are Python numbers,
  kept as rationals.
\<close>

datatype event = Dealt card | Settled nat nat | Updated nat card

record table =
  ais :: "nat \<Rightarrow> blackjack_ai"
  players :: "player_simulator list"
  rand :: random_state
  trace :: "event list"

definition draw_from :: "nat \<Rightarrow> table \<Rightarrow> error + card \<times> table" where
  "draw_from a st =
     (case draw (deck (ais st a)) of
        Inl e \<Rightarrow> Inl e
      | Inr (c, cards') \<Rightarrow>
          Inr (c, st\<lparr>ais := (ais st)(a := (ais st a)\<lparr>deck := cards'\<rparr>),
                     trace := trace st @ [Dealt c]\<rparr>))"

text \<open>
  The reshuffle at the start of a round:
  \<^verbatim>\<open>
    if len(players[0].ai.deck.cards) < 52:
        players[0].ai.deck = Deck(6)
        players[0].ai.card_counter.decks_remaining = 6
  \<close>
\<close>

definition reshuffle_check :: "nat \<Rightarrow> table \<Rightarrow> table" where
  "reshuffle_check a st =
     (if length (deck (ais st a)) < 52 then
        (case Deck 6 (rand st) of
           (cards, g') \<Rightarrow>
             st\<lparr>ais := (ais st)(a := (ais st a)\<lparr>deck := cards,
                    card_counter := (card_counter (ais st a))\<lparr>decks_remaining := 6\<rparr>\<rparr>),
                rand := g'\<rparr>)
      else st)"

text \<open>
  The body of the \<^verbatim>\<open>while True\<close> loop of a hand, after the decision is made; it
  either leaves the loop or goes round again.
  \<^verbatim>\<open>
    if decision == "Hit":
        hand.add_card(player.ai.deck.draw())
        if hand.value() > 21:
            break
    elif decision == "Stand":
        break
    elif decision == "Double":
        if len(hand.cards) == 2:
            player.bet_size *= 2
            hand.add_card(player.ai.deck.draw())
            break
    elif decision == "Split":
        if hand.can_split() and len(player_hands) < 4:
            new_hand = Hand([hand.cards.pop()])
            hand.add_card(player.ai.deck.draw())
            new_hand.add_card(player.ai.deck.draw())
            player_hands.append(new_hand)
        else:
            continue
  \<close>
\<close>

datatype flow = Break | Again

definition turn_step ::
  "action \<Rightarrow> nat \<Rightarrow> nat \<Rightarrow> hand list \<Rightarrow> table \<Rightarrow> error + flow \<times> hand list \<times> table" where
  "turn_step decision i j player_hands st =
     (let player = players st ! i; h = player_hands ! j
      in case decision of
           Hit \<Rightarrow>
             (case draw_from (ai player) st of
                Inl e \<Rightarrow> Inl e
              | Inr (c, st') \<Rightarrow>
                  Inr (if hand_value (h @ [c]) > 21 then Break else Again,
                       player_hands[j := h @ [c]], st'))
         | Stand \<Rightarrow> Inr (Break, player_hands, st)
         | Double \<Rightarrow>
             if length h = 2 then
               (case draw_from (ai player)
                       (st\<lparr>players := (players st)[i := player\<lparr>bet_size := bet_size player * 2\<rparr>]\<rparr>) of
                  Inl e \<Rightarrow> Inl e
                | Inr (c, st') \<Rightarrow> Inr (Break, player_hands[j := h @ [c]], st'))
             else Inr (Again, player_hands, st)
         | Split \<Rightarrow>
             if can_split h \<and> length player_hands < 4 then
               (case draw_from (ai player) st of
                  Inl e \<Rightarrow> Inl e
                | Inr (c1, st1) \<Rightarrow>
                    (case draw_from (ai player) st1 of
                       Inl e \<Rightarrow> Inl e
                     | Inr (c2, st2) \<Rightarrow>
                         Inr (Again, player_hands[j := butlast h @ [c1]] @ [[last h] @ [c2]], st2)))
             else Inr (Again, player_hands, st))"

text \<open>
  The \<^verbatim>\<open>while True\<close> loop has no bound of its own, so the model counts its iterations
  with fuel: \<open>None\<close> means the loop was still running when the fuel ran out.
\<close>

fun player_turn ::
  "nat \<Rightarrow> nat \<Rightarrow> nat \<Rightarrow> card \<Rightarrow> hand list \<Rightarrow> table \<Rightarrow> (error + hand list \<times> table) option" where
  "player_turn 0 i j up_card player_hands st = None"
| "player_turn (Suc n) i j up_card player_hands st =
     (let player = players st ! i
      in case make_decision player (ais st (ai player)) (player_hands ! j) up_card (rand st) of
           (decision, g') \<Rightarrow>
             (case turn_step decision i j player_hands (st\<lparr>rand := g'\<rparr>) of
                Inl e \<Rightarrow> Some (Inl e)
              | Inr (Break, hs, st') \<Rightarrow> Some (Inr (hs, st'))
              | Inr (Again, hs, st') \<Rightarrow> player_turn n i j up_card hs st'))"

text \<open>
  \<^verbatim>\<open>for hand in player_hands\<close> visits the hands by index, also those a split appends
  while the loop runs. Each hand's loop gets the fuel that is left.
\<close>

fun play_hands ::
  "nat \<Rightarrow> nat \<Rightarrow> nat \<Rightarrow> card \<Rightarrow> hand list \<Rightarrow> table \<Rightarrow> (error + hand list \<times> table) option" where
  "play_hands 0 i j up_card player_hands st =
     (if j < length player_hands then None else Some (Inr (player_hands, st)))"
| "play_hands (Suc n) i j up_card player_hands st =
     (if j < length player_hands then
        (case player_turn n i j up_card player_hands st of
           None \<Rightarrow> None
         | Some (Inl e) \<Rightarrow> Some (Inl e)
         | Some (Inr (hs, st')) \<Rightarrow> play_hands n i (j + 1) up_card hs st')
      else Some (Inr (player_hands, st)))"

text \<open>The dealer draws from the shoe of the seat's AI object until the hand reaches 17.\<close>

function dealer_turn :: "nat \<Rightarrow> hand \<Rightarrow> table \<Rightarrow> error + hand \<times> table" where
  "dealer_turn a dealer_hand st =
     (if hand_value dealer_hand < 17 then
        (case draw_from a st of
           Inl e \<Rightarrow> Inl e
         | Inr (c, st') \<Rightarrow> dealer_turn a (dealer_hand @ [c]) st')
      else Inr (dealer_hand, st))"
  by pat_completeness auto
termination
proof (relation "measure (\<lambda>(a, dealer_hand, st). nat (17 - hard_total dealer_hand))", goal_cases)
  case 1
  show ?case by simp
next
  case (2 a dealer_hand st x c st')
  from \<open>hand_value dealer_hand < 17\<close> hard_total_le_value [of dealer_hand]
    hard_total_snoc [of dealer_hand c]
  show ?case by simp
qed

declare dealer_turn.simps [simp del]

text \<open>
  Settlement of the seat's hands, in order:
  \<^verbatim>\<open>
    for hand in player_hands:
        if hand.value() > 21:
            player.bankroll -= player.bet_size
        elif dealer_hand.value() > 21 or hand.value() > dealer_hand.value():
            player.bankroll += player.bet_size
        elif hand.value() < dealer_hand.value():
            player.bankroll -= player.bet_size
  \<close>
\<close>

definition settle_hand :: "hand \<Rightarrow> hand \<Rightarrow> player_simulator \<Rightarrow> player_simulator" where
  "settle_hand dealer_hand h player =
     (if hand_value h > 21 then player\<lparr>bankroll := bankroll player - bet_size player\<rparr>
      else if hand_value dealer_hand > 21 \<or> hand_value h > hand_value dealer_hand
        then player\<lparr>bankroll := bankroll player + bet_size player\<rparr>
      else if hand_value h < hand_value dealer_hand
        then player\<lparr>bankroll := bankroll player - bet_size player\<rparr>
      else player)"

fun settle :: "nat \<Rightarrow> nat \<Rightarrow> hand \<Rightarrow> hand list \<Rightarrow> table \<Rightarrow> table" where
  "settle i j dealer_hand [] st = st"
| "settle i j dealer_hand (h # hs) st =
     settle i (j + 1) dealer_hand hs
       (st\<lparr>players := (players st)[i := settle_hand dealer_hand h (players st ! i)],
           trace := trace st @ [Settled i j]\<rparr>)"

text \<open>
  \<^verbatim>\<open>
    for card in dealer_hand.cards + [card for hand in player_hands for card in hand.cards]:
        player.ai.card_counter.update(card)
  \<close>
\<close>

fun update_counter :: "nat \<Rightarrow> card list \<Rightarrow> table \<Rightarrow> table" where
  "update_counter a [] st = st"
| "update_counter a (c # cs) st =
     update_counter a cs
       (st\<lparr>ais := (ais st)(a := (ais st a)\<lparr>card_counter := update (card_counter (ais st a)) c\<rparr>),
           trace := trace st @ [Updated a c]\<rparr>)"

text \<open>
  The body of \<^verbatim>\<open>for player in players\<close>, in its phases: the seat's two cards
  (\<^verbatim>\<open>Hand([player.ai.deck.draw(), player.ai.deck.draw()])\<close>), its hands, the
  deferred hole card under European rules and the dealer's turn, then the settlement,
  the reset of the bet to 10 and the counter updates. All draws are from the shoe of
  the seat's AI object. The body leaves the dealer's hand to the next seat as it is.
\<close>

definition deal_seat :: "nat \<Rightarrow> table \<Rightarrow> error + hand list \<times> table" where
  "deal_seat a st =
     (case draw_from a st of
        Inl e \<Rightarrow> Inl e
      | Inr (c1, st1) \<Rightarrow>
          (case draw_from a st1 of
             Inl e \<Rightarrow> Inl e
           | Inr (c2, st2) \<Rightarrow> Inr ([[c1, c2]], st2)))"

definition hole_card :: "bool \<Rightarrow> nat \<Rightarrow> hand \<Rightarrow> table \<Rightarrow> error + hand \<times> table" where
  "hole_card european_rules a dealer_hand st =
     (if european_rules then
        (case draw_from a st of
           Inl e \<Rightarrow> Inl e
         | Inr (c, st') \<Rightarrow> Inr (dealer_hand @ [c], st'))
      else Inr (dealer_hand, st))"

definition finish_seat :: "nat \<Rightarrow> hand \<Rightarrow> hand list \<Rightarrow> table \<Rightarrow> table" where
  "finish_seat i dealer_hand player_hands st =
     (let st1 = settle i 0 dealer_hand player_hands st;
          st2 = st1\<lparr>players := (players st1)[i := (players st1 ! i)\<lparr>bet_size := 10\<rparr>]\<rparr>
      in update_counter (ai (players st2 ! i)) (dealer_hand @ concat player_hands) st2)"

definition play_seat ::
  "nat \<Rightarrow> bool \<Rightarrow> nat \<Rightarrow> hand \<Rightarrow> table \<Rightarrow> (error + hand \<times> table) option" where
  "play_seat fuel european_rules i dealer_hand st =
     (let a = ai (players st ! i)
      in case deal_seat a st of
           Inl e \<Rightarrow> Some (Inl e)
         | Inr (hs0, st1) \<Rightarrow>
        (case play_hands fuel i 0 (dealer_hand ! 0) hs0 st1 of
           None \<Rightarrow> None
         | Some (Inl e) \<Rightarrow> Some (Inl e)
         | Some (Inr (player_hands, st2)) \<Rightarrow>
        (case hole_card european_rules a dealer_hand st2 of
           Inl e \<Rightarrow> Some (Inl e)
         | Inr (dealer_hand1, st3) \<Rightarrow>
        (case dealer_turn a dealer_hand1 st3 of
           Inl e \<Rightarrow> Some (Inl e)
         | Inr (dealer_hand2, st4) \<Rightarrow>
             Some (Inr (dealer_hand2, finish_seat i dealer_hand2 player_hands st4))))))"

fun play_seats ::
  "nat \<Rightarrow> bool \<Rightarrow> nat list \<Rightarrow> hand \<Rightarrow> table \<Rightarrow> (error + hand \<times> table) option" where
  "play_seats fuel european_rules [] dealer_hand st = Some (Inr (dealer_hand, st))"
| "play_seats fuel european_rules (i # seats) dealer_hand st =
     (case play_seat fuel european_rules i dealer_hand st of
        None \<Rightarrow> None
      | Some (Inl e) \<Rightarrow> Some (Inl e)
      | Some (Inr (dealer_hand', st')) \<Rightarrow> play_seats fuel european_rules seats dealer_hand' st')"

text \<open>
  One iteration of \<^verbatim>\<open>for _ in range(num_rounds)\<close>: the reshuffle check on the shoe of
  \<^verbatim>\<open>players[0].ai\<close>, the dealer's first card (and the hole card under American
  rules) from that shoe, the seats in order, and the tuple of bankrolls appended to the
  results.
\<close>

definition deal_dealer :: "bool \<Rightarrow> nat \<Rightarrow> table \<Rightarrow> error + hand \<times> table" where
  "deal_dealer european_rules a st =
     (case draw_from a st of
        Inl e \<Rightarrow> Inl e
      | Inr (c, st1) \<Rightarrow>
          if \<not> european_rules then
            (case draw_from a st1 of
               Inl e \<Rightarrow> Inl e
             | Inr (c', st2) \<Rightarrow> Inr ([c] @ [c'], st2))
          else Inr ([c], st1))"

definition play_round :: "nat \<Rightarrow> bool \<Rightarrow> table \<Rightarrow> (error + rat list \<times> table) option" where
  "play_round fuel european_rules st =
     (case players st of
        [] \<Rightarrow> Some (Inl IndexError)
      | p0 # _ \<Rightarrow>
          (case deal_dealer european_rules (ai p0) (reshuffle_check (ai p0) st) of
             Inl e \<Rightarrow> Some (Inl e)
           | Inr (dealer_hand, st1) \<Rightarrow>
               (case play_seats fuel european_rules [0..<length (players st1)] dealer_hand st1 of
                  None \<Rightarrow> None
                | Some (Inl e) \<Rightarrow> Some (Inl e)
                | Some (Inr (dealer_hand', st2)) \<Rightarrow>
                    Some (Inr (map bankroll (players st2), st2)))))"

fun simulate_game ::
  "nat \<Rightarrow> nat \<Rightarrow> bool \<Rightarrow> rat list list \<Rightarrow> table \<Rightarrow> (error + rat list list \<times> table) option" where
  "simulate_game fuel 0 european_rules results st = Some (Inr (results, st))"
| "simulate_game fuel (Suc num_rounds) european_rules results st =
     (case play_round fuel european_rules st of
        None \<Rightarrow> None
      | Some (Inl e) \<Rightarrow> Some (Inl e)
      | Some (Inr (bankrolls, st')) \<Rightarrow>
          simulate_game fuel num_rounds european_rules (results @ [bankrolls]) st')"

section \<open>The decision of \<^verbatim>\<open>blackjack-player-simulation.py\<close>\<close>

text \<open>
  \<^verbatim>\<open>make_decision\<close> of \<^verbatim>\<open>blackjack-player-simulation.py\<close>, whose game has no Double
  and no Split. The recommendation is that of \<^verbatim>\<open>advanced-blackjack-ai.py\<close> and is
  computed first, so an exception of the dealer simulation leaves the function before
  any random number is drawn.
  \<^verbatim>\<open>
    optimal_decision = self.ai.recommend_action(hand, dealer_up_card)
    if random.random() < self.skill_level:
        return optimal_decision
    else:
        return random.choice(["Hit", "Stand"])
  \<close>
\<close>

definition hit_stand_make_decision ::
  "rat \<Rightarrow> card list \<Rightarrow> rat \<Rightarrow> hand \<Rightarrow> card \<Rightarrow> random_state
     \<Rightarrow> (error + action \<times> random_state) \<times> card list" where
  "hit_stand_make_decision skill cards tc h dealer_up_card g =
     (case ai_recommend_action cards tc h dealer_up_card of
        (Inl e, cards') \<Rightarrow> (Inl e, cards')
      | (Inr optimal_decision, cards') \<Rightarrow>
          (case random_random g of
             (r, g') \<Rightarrow>
               (Inr (if r < skill then (optimal_decision, g') else random_choice [Hit, Stand] g'),
                cards')))"

section \<open>Notions used in the statements\<close>

text \<open>
  The fraction the specification describes: among the cards now in the shoe, those whose
  addition to the hand gives a hand whose value (aces re-valued) is above 21.
\<close>

definition exact_bust_fraction :: "card list \<Rightarrow> hand \<Rightarrow> rat" where
  "exact_bust_fraction cards player_hand =
     of_nat (length (filter (\<lambda>c. hand_value (player_hand @ [c]) > 21) cards))
       / of_nat (length cards)"

text \<open>Whether a trial of the dealer simulation on this shoe ends with the dealer bust.\<close>

definition trial_busts :: "card list \<Rightarrow> card \<Rightarrow> bool" where
  "trial_busts cards up_card =
     (case fst (dealer_trial cards [up_card]) of Inl e \<Rightarrow> False | Inr h \<Rightarrow> hand_value h > 21)"

text \<open>
  \<open>deals st st' cs\<close>: between \<open>st\<close> and \<open>st'\<close> exactly the cards \<open>cs\<close> were drawn, in
  that order, nothing was settled and no counter was updated, and no seat changed its
  AI object.
\<close>

definition deals :: "table \<Rightarrow> table \<Rightarrow> card list \<Rightarrow> bool" where
  "deals st st' cs \<longleftrightarrow>
     trace st' = trace st @ map Dealt cs \<and> map ai (players st') = map ai (players st)"

text \<open>The value the \<open>k\<close>-th coming call of \<^verbatim>\<open>random.random()\<close> returns.\<close>

definition coming_random :: "random_state \<Rightarrow> nat \<Rightarrow> rat" where
  "coming_random g k = of_nat (outputs g (position g + k) mod 2 ^ 53) / 2 ^ 53"

section \<open>Tables and players of the examples\<close>

text \<open>
  An AI object whose shoe is one full deck in the order of construction, with a fresh
  Hi-Lo counter.
\<close>

definition one_deck_ai :: blackjack_ai where
  "one_deck_ai = \<lparr>deck = fresh_cards 1, card_counter = CardCounter ''Hi-Lo''\<rparr>"

text \<open>The same shoe with a Hi-Lo counter at a running count of 18 and a true count of 3.\<close>

definition hot_ai :: blackjack_ai where
  "hot_ai = \<lparr>deck = fresh_cards 1, card_counter =
     \<lparr>system = ''Hi-Lo'', count_cc = 18, true_count = 3, decks_remaining = 6\<rparr>\<rparr>"

text \<open>A player of skill 1 without classifier, on the AI object at address 0.\<close>

definition expert :: player_simulator where
  "expert = \<lparr>ai = 0, skill_level = 1, bankroll = 1000, bet_size = 10, ml_model = None\<rparr>"

text \<open>Two such players at one table, sharing the AI object (one shoe, one counter).\<close>

definition two_seats :: table where
  "two_seats = \<lparr>ais = (\<lambda>a. one_deck_ai), players = [expert, expert],
     rand = \<lparr>outputs = (\<lambda>n. 0), position = 0\<rparr>, trace = []\<rparr>"

text \<open>The same table with a single seat.\<close>

definition one_seat :: table where
  "one_seat = \<lparr>ais = (\<lambda>a. one_deck_ai), players = [expert],
     rand = \<lparr>outputs = (\<lambda>n. 0), position = 0\<rparr>, trace = []\<rparr>"

text \<open>A shoe worn down to 51 cards, with the counter after one ten-valued card.\<close>

definition worn_ai :: blackjack_ai where
  "worn_ai = \<lparr>deck = take 51 (fresh_cards 1), card_counter =
     \<lparr>system = ''Hi-Lo'', count_cc = - 1, true_count = - (52 / 311), decks_remaining = 311 / 52\<rparr>\<rparr>"

text \<open>A single seat on the worn shoe.\<close>

definition worn_table :: table where
  "worn_table = \<lparr>ais = (\<lambda>a. worn_ai), players = [expert],
     rand = \<lparr>outputs = (\<lambda>n. 0), position = 0\<rparr>, trace = []\<rparr>"

text \<open>A single seat whose AI object was built as \<^verbatim>\<open>BlackjackAI(num_decks=1)\<close>.\<close>

definition single_deck_table :: table where
  "single_deck_table =
     \<lparr>ais = (\<lambda>a. fst (BlackjackAI 1 ''Hi-Lo'' \<lparr>outputs = (\<lambda>n. 0), position = 0\<rparr>)),
      players = [expert], rand = \<lparr>outputs = (\<lambda>n. 0), position = 0\<rparr>, trace = []\<rparr>"

text \<open>Four hands of a seat, each a pair of eights.\<close>

definition four_eights :: "hand list" where
  "four_eights = [[Card Eight Spades, Card Eight Hearts], [Card Eight Diamonds, Card Eight Clubs],
                  [Card Eight Spades, Card Eight Clubs], [Card Eight Diamonds, Card Eight Hearts]]"

text \<open>A player of skill 0.5 without classifier.\<close>

definition novice :: player_simulator where
  "novice = \<lparr>ai = 0, skill_level = 1 / 2, bankroll = 1000, bet_size = 10, ml_model = None\<rparr>"

text \<open>
  A random source whose first number is just below 1 and whose later raw outputs are 2.
\<close>

definition high_then_two :: random_state where
  "high_then_two = \<lparr>outputs = (\<lambda>n. if n = 0 then 2 ^ 53 - 1 else 2), position = 0\<rparr>"

text \<open>
  A random source whose first number is just below 1 and whose later numbers are 0.
\<close>

definition zero_after_high :: random_state where
  "zero_after_high = \<lparr>outputs = (\<lambda>n. if n = 0 then 2 ^ 53 - 1 else 0), position = 0\<rparr>"

text \<open>
  A shoe of 62 cards; from the top: a five and a six, which go to the dealer, then
  eight eights. The only player at the table has skill 1 and no classifier.
\<close>

definition stacked_ai :: blackjack_ai where
  "stacked_ai =
     \<lparr>deck = fresh_cards 1 @
        [Card Eight Clubs, Card Eight Diamonds, Card Eight Hearts, Card Eight Spades,
         Card Eight Clubs, Card Eight Diamonds, Card Eight Hearts, Card Eight Spades,
         Card Six Clubs, Card Five Clubs],
      card_counter = CardCounter ''Hi-Lo''\<rparr>"

definition stacked_table :: table where
  "stacked_table = \<lparr>ais = (\<lambda>a. stacked_ai), players = [expert],
     rand = \<lparr>outputs = (\<lambda>n. 0), position = 0\<rparr>, trace = []\<rparr>"

section \<open>Hand value: the soft-ace rule\<close>

text \<open>
  Claim C2. The value of a hand is the sum of its card values (J, Q, K as 10, A as 11)
  minus 10 for each demoted ace: \<open>k\<close> aces are demoted, where \<open>k\<close> is at most the number
  of aces in the hand (no ace is demoted twice), every demotion happened while the
  total was still above 21, and the loop stopped because the total is at most 21 or
  all aces are used. In particular A,A,9 is worth 21, A,K is worth 21 and is a
  blackjack, and a hand is a blackjack exactly when it has two cards and value 21.
\<close>

theorem hand_value_soft_aces:
  "(\<exists>k. 0 \<le> k \<and> k \<le> hand_aces h
        \<and> hand_value h = hand_total h - 10 * k
        \<and> (\<forall>j. 0 \<le> j \<and> j < k \<longrightarrow> 21 < hand_total h - 10 * j)
        \<and> (k = hand_aces h \<or> hand_total h - 10 * k \<le> 21))
   \<and> hand_total h = (\<Sum>c\<leftarrow>h. if rank c \<in> {Jack, Queen, King} then 10
                              else if rank c = Ace then 11 else rank_int (rank c))
   \<and> hand_value [Card Ace s1, Card Ace s2, Card Nine s3] = 21
   \<and> hand_value [Card Ace s1, Card King s2] = 21
   \<and> is_blackjack [Card Ace s1, Card King s2]
   \<and> (is_blackjack h \<longleftrightarrow> length h = 2 \<and> hand_value h = 21)"
proof -
  have a: "\<exists>k. 0 \<le> k \<and> k \<le> hand_aces h
        \<and> hand_value h = hand_total h - 10 * k
        \<and> (\<forall>j. 0 \<le> j \<and> j < k \<longrightarrow> 21 < hand_total h - 10 * j)
        \<and> (k = hand_aces h \<or> hand_total h - 10 * k \<le> 21)"
    unfolding hand_value_def by (rule ace_loop_demotes [OF hand_aces_nonneg])
  have b: "hand_total h = (\<Sum>c\<leftarrow>h. if rank c \<in> {Jack, Queen, King} then 10
                              else if rank c = Ace then 11 else rank_int (rank c))"
    unfolding hand_total_def by (induction h) (auto simp: card_value_def)
  have c: "hand_value [Card Ace s1, Card Ace s2, Card Nine s3] = 21"
    by (simp add: hand_value_def hand_total_def hand_aces_def card_value_def ace_loop.simps)
  have d: "hand_value [Card Ace s1, Card King s2] = 21"
    by (simp add: hand_value_def hand_total_def hand_aces_def card_value_def ace_loop.simps)
  from a b c d show ?thesis
    by (simp add: is_blackjack_def)
qed

theorem hand_value_soft_aces_witness:
  "\<exists>k. 0 \<le> k \<and> k \<le> 2 \<and> hand_value [Card Ace Spades, Card Ace Hearts, Card Nine Clubs] = 31 - 10 * k
     \<and> (\<forall>j. 0 \<le> j \<and> j < k \<longrightarrow> 21 < 31 - 10 * j)"
  using hand_value_soft_aces [of "[Card Ace Spades, Card Ace Hearts, Card Nine Clubs]" Spades Hearts Clubs]
  by (simp add: hand_total_def hand_aces_def card_value_def)

section \<open>The dealer simulation\<close>

lemma draw_nonempty: "cards \<noteq> [] \<Longrightarrow> draw cards = Inr (last cards, butlast cards)"
  by (simp add: draw_def)

lemma dealer_trial_step:
  "hand_value h < 17 \<Longrightarrow> cards \<noteq> [] \<Longrightarrow>
   dealer_trial cards h = dealer_trial cards (h @ [last cards])"
  by (subst dealer_trial.simps) (simp add: draw_def)

lemma dealer_trial_stop: "\<not> hand_value h < 17 \<Longrightarrow> dealer_trial cards h = (Inr h, cards)"
  by (subst dealer_trial.simps) simp

lemma dealer_trial_empty:
  "hand_value h < 17 \<Longrightarrow> dealer_trial [] h = (Inl DeckIsEmpty, [])"
  by (subst dealer_trial.simps) (simp add: draw_def)

lemma dealer_trial_shoe: "snd (dealer_trial cards h) = cards"
proof (induction cards h rule: dealer_trial.induct)
  case (1 cards h)
  show ?case
  proof (cases "hand_value h < 17")
    case False
    then show ?thesis by (simp add: dealer_trial_stop)
  next
    case True
    show ?thesis
    proof (cases "cards = []")
      case True
      with \<open>hand_value h < 17\<close> show ?thesis by (simp add: dealer_trial_empty)
    next
      case False
      with True have "draw cards = Inr (last cards, butlast cards)"
        by (simp add: draw_def)
      from "1.IH" [OF True this refl] False show ?thesis
        by (simp add: dealer_trial_step [OF True False, symmetric])
    qed
  qed
qed

lemma sim_trials_shoe: "snd (sim_trials n up cards b) = cards"
proof (induction n arbitrary: cards b)
  case 0
  show ?case by simp
next
  case (Suc n)
  obtain r d where rd: "dealer_trial cards [up] = (r, d)" by (cases "dealer_trial cards [up]")
  with dealer_trial_shoe [of cards "[up]"] have "d = cards" by simp
  with rd Suc show ?case by (cases r) simp_all
qed

text \<open>
  Claim C9. \<^verbatim>\<open>simulate_dealer_hand\<close> leaves the live shoe as it found it, for every
  shoe, up-card and number of trials, and whether it returns an estimate or raises:
  the list of cards after the call is the list before it, so the multisets agree.
\<close>

theorem simulate_dealer_hand_shoe:
  "snd (simulate_dealer_hand cards up_card num_simulations) = cards
   \<and> mset (snd (simulate_dealer_hand cards up_card num_simulations)) = mset cards"
proof -
  obtain r d where rd: "sim_trials num_simulations up_card cards 0 = (r, d)"
    by (cases "sim_trials num_simulations up_card cards 0")
  with sim_trials_shoe [of num_simulations up_card cards 0] have "d = cards" by simp
  with rd have "snd (simulate_dealer_hand cards up_card num_simulations) = cards"
    by (cases r) (simp_all add: simulate_dealer_hand_def)
  then show ?thesis by simp
qed

lemma dealer_trial_top:
  "cards \<noteq> [] \<Longrightarrow> fst (dealer_trial cards h) = fst (dealer_trial [last cards] h)"
proof (induction cards h rule: dealer_trial.induct)
  case (1 cards h)
  show ?case
  proof (cases "hand_value h < 17")
    case False
    then show ?thesis by (simp add: dealer_trial_stop)
  next
    case True
    from "1.prems" have d: "draw cards = Inr (last cards, butlast cards)"
      by (simp add: draw_def)
    from "1.IH" [OF True d refl] "1.prems"
    have "fst (dealer_trial cards (h @ [last cards])) = fst (dealer_trial [last cards] (h @ [last cards]))"
      by simp
    with True "1.prems" show ?thesis
      using dealer_trial_step [of h cards] dealer_trial_step [of h "[last cards]"]
      by simp
  qed
qed

lemma dealer_trial_repeats:
  "cards \<noteq> [] \<Longrightarrow> \<exists>k. dealer_trial cards h = (Inr (h @ replicate k (last cards)), cards)"
proof (induction cards h rule: dealer_trial.induct)
  case (1 cards h)
  show ?case
  proof (cases "hand_value h < 17")
    case False
    then have "dealer_trial cards h = (Inr (h @ replicate 0 (last cards)), cards)"
      by (simp add: dealer_trial_stop)
    then show ?thesis by blast
  next
    case True
    from "1.prems" have d: "draw cards = Inr (last cards, butlast cards)"
      by (simp add: draw_def)
    from "1.IH" [OF True d refl] "1.prems" obtain k where
      "dealer_trial cards (h @ [last cards]) = (Inr ((h @ [last cards]) @ replicate k (last cards)), cards)"
      by auto
    with True "1.prems" have "dealer_trial cards h = (Inr (h @ replicate (Suc k) (last cards)), cards)"
      using dealer_trial_step [of h cards] by simp
    then show ?thesis by blast
  qed
qed

lemma sim_trials_top:
  "cards \<noteq> [] \<Longrightarrow> fst (sim_trials n up cards b) = fst (sim_trials n up [last cards] b)"
proof (induction n arbitrary: b)
  case 0
  show ?case by simp
next
  case (Suc n)
  obtain r d where rd: "dealer_trial cards [up] = (r, d)" by (cases "dealer_trial cards [up]")
  obtain r' d' where rd': "dealer_trial [last cards] [up] = (r', d')"
    by (cases "dealer_trial [last cards] [up]")
  from rd dealer_trial_shoe [of cards "[up]"] have d: "d = cards" by simp
  from rd' dealer_trial_shoe [of "[last cards]" "[up]"] have d': "d' = [last cards]" by simp
  from rd rd' dealer_trial_top [OF Suc.prems, of "[up]"] have r: "r' = r" by simp
  show ?case using Suc rd rd' d d' r by (cases r) simp_all
qed

text \<open>
  Claim C10. On a non-empty shoe each draw of \<^verbatim>\<open>simulate_dealer_hand\<close> pops the last
  card of the list and the next statement appends that card again, so the shoe is back
  to what it was; within one trial the dealer therefore receives the same card, the last
  one of the list, again and again; and the estimate depends only on the up-card and on
  that last card: a shoe holding nothing but that card gives the same result.
\<close>

theorem simulate_dealer_hand_same_card:
  assumes "cards \<noteq> []"
  shows "draw cards = Inr (last cards, butlast cards)
    \<and> butlast cards @ [last (dealer_hand @ [last cards])] = cards
    \<and> (\<exists>k. dealer_trial cards [up_card] = (Inr (up_card # replicate k (last cards)), cards))
    \<and> fst (simulate_dealer_hand cards up_card num_simulations)
        = fst (simulate_dealer_hand [last cards] up_card num_simulations)"
proof -
  from assms have a: "draw cards = Inr (last cards, butlast cards)"
    by (rule draw_nonempty)
  from assms have b: "butlast cards @ [last (dealer_hand @ [last cards])] = cards"
    by simp
  from dealer_trial_repeats [OF assms, of "[up_card]"]
  have c: "\<exists>k. dealer_trial cards [up_card] = (Inr (up_card # replicate k (last cards)), cards)"
    by simp
  obtain r d where rd: "sim_trials num_simulations up_card cards 0 = (r, d)"
    by (cases "sim_trials num_simulations up_card cards 0")
  obtain r' d' where rd': "sim_trials num_simulations up_card [last cards] 0 = (r', d')"
    by (cases "sim_trials num_simulations up_card [last cards] 0")
  from rd rd' sim_trials_top [OF assms, of num_simulations up_card 0] have "r' = r"
    by simp
  with rd rd' have d: "fst (simulate_dealer_hand cards up_card num_simulations)
        = fst (simulate_dealer_hand [last cards] up_card num_simulations)"
    by (cases r) (simp_all add: simulate_dealer_hand_def)
  from a b c d show ?thesis by blast
qed

lemma hv_eval:
  "hand_value [Card Ten Spades] = 10"
  "hand_value [Card Ten Spades, Card Six Clubs] = 16"
  "hand_value [Card Ten Spades, Card Six Clubs, Card Six Clubs] = 22"
  by (simp_all add: hand_value_def hand_total_def hand_aces_def card_value_def ace_loop.simps)

theorem simulate_dealer_hand_same_card_witness:
  "[Card Five Hearts, Card Six Clubs] \<noteq> []
   \<and> draw [Card Five Hearts, Card Six Clubs] = Inr (Card Six Clubs, [Card Five Hearts])
   \<and> dealer_trial [Card Five Hearts, Card Six Clubs] [Card Ten Spades]
       = (Inr [Card Ten Spades, Card Six Clubs, Card Six Clubs], [Card Five Hearts, Card Six Clubs])
   \<and> fst (simulate_dealer_hand [Card Five Hearts, Card Six Clubs] (Card Ten Spades) 3)
       = fst (simulate_dealer_hand [Card Six Clubs] (Card Ten Spades) 3)"
  using simulate_dealer_hand_same_card [of "[Card Five Hearts, Card Six Clubs]" "[]" "Card Ten Spades" 3]
  by (simp add: dealer_trial.simps draw_def hv_eval)

text \<open>All trials of one call end alike, so the estimate is 0 or 1.\<close>

lemma sim_trials_nonempty:
  "cards \<noteq> [] \<Longrightarrow>
   sim_trials n up cards b = (Inr (b + n * (if trial_busts cards up then 1 else 0)), cards)"
proof (induction n arbitrary: b)
  case 0
  show ?case by simp
next
  case (Suc n)
  from dealer_trial_repeats [OF Suc.prems, of "[up]"] obtain k where
    k: "dealer_trial cards [up] = (Inr ([up] @ replicate k (last cards)), cards)" by blast
  then have tb: "trial_busts cards up \<longleftrightarrow> hand_value ([up] @ replicate k (last cards)) > 21"
    by (simp add: trial_busts_def)
  show ?case using Suc k tb by simp
qed

lemma simulate_dealer_hand_nonempty:
  "cards \<noteq> [] \<Longrightarrow> 0 < n \<Longrightarrow>
   simulate_dealer_hand cards up n = (Inr (if trial_busts cards up then 1 else 0), cards)"
  by (simp add: simulate_dealer_hand_def sim_trials_nonempty)

lemma simulate_dealer_hand_empty:
  "0 < n \<Longrightarrow> simulate_dealer_hand [] up n = (Inl DeckIsEmpty, [])"
proof -
  assume "0 < n"
  then obtain m where m: "n = Suc m" by (cases n) auto
  have "hand_value [up] < 17"
    by (cases up; cases "rank up") (auto simp: hand_value_def hand_total_def hand_aces_def card_value_def ace_loop.simps)
  then have "dealer_trial [] [up] = (Inl DeckIsEmpty, [])" by (rule dealer_trial_empty)
  with m show ?thesis by (simp add: simulate_dealer_hand_def)
qed

text \<open>
  \<^verbatim>\<open>recommend_action\<close> of \<^verbatim>\<open>advanced-blackjack-ai.py\<close> on a shoe that is not
  empty: the dealer simulation returns an estimate and the \<^verbatim>\<open>if/elif\<close> chain decides.
\<close>

lemma ai_recommend_action_chain:
  assumes "cards \<noteq> []"
  shows "\<exists>dealer_bust_prob.
      fst (simulate_dealer_hand cards dealer_up_card 10000) = Inr dealer_bust_prob
    \<and> fst (ai_recommend_action cards tc player_hand dealer_up_card) =
        Inr (if tc > 2 \<and> hand_value player_hand = 16 \<and> card_value dealer_up_card = 10
             then Stand
             else if calculate_bust_probability cards player_hand > 6 / 10 then Stand
             else if dealer_bust_prob > 1 / 2 \<and> hand_value player_hand \<ge> 12 then Stand
             else ai_basic_strategy player_hand dealer_up_card)"
proof -
  have "simulate_dealer_hand cards dealer_up_card 10000
      = (Inr (if trial_busts cards dealer_up_card then 1 else 0), cards)"
    using assms by (simp add: simulate_dealer_hand_nonempty)
  then show ?thesis
    by (simp add: ai_recommend_action_def Let_def)
qed

text \<open>On an empty shoe the dealer simulation raises, and so does the recommendation.\<close>

lemma ai_recommend_action_empty_shoe:
  "ai_recommend_action [] tc player_hand dealer_up_card = (Inl DeckIsEmpty, [])"
  by (simp add: ai_recommend_action_def Let_def simulate_dealer_hand_empty)

section \<open>The bust probability\<close>

lemmas hand_eval = hand_value_def hand_total_def hand_aces_def card_value_def ace_loop.simps

lemma lookup_default_increment:
  "lookup_default (increment k m) i = lookup_default m i + (if i = k then 1 else 0)"
  by (induction k m rule: increment.induct) (auto simp: lookup_default_def)

lemma sum_snd_increment: "sum_list (map snd (increment k m)) = sum_list (map snd m) + 1"
  by (induction k m rule: increment.induct) auto

lemma lookup_default_foldl:
  "lookup_default (foldl (\<lambda>m c. increment (card_value c) m) m0 cards) i
     = lookup_default m0 i + length (filter (\<lambda>c. card_value c = i) cards)"
  by (induction cards arbitrary: m0) (auto simp: lookup_default_increment)

lemma sum_snd_foldl:
  "sum_list (map snd (foldl (\<lambda>m c. increment (card_value c) m) m0 cards))
     = sum_list (map snd m0) + length cards"
  by (induction cards arbitrary: m0) (auto simp: sum_snd_increment)

lemma remaining_cards_lookup:
  "lookup_default (remaining_cards cards) i = length (filter (\<lambda>c. card_value c = i) cards)"
proof -
  have "lookup_default [] i = 0" by (simp add: lookup_default_def)
  then show ?thesis by (simp add: remaining_cards_def lookup_default_foldl)
qed

lemma remaining_cards_total: "sum_list (map snd (remaining_cards cards)) = length cards"
  by (simp add: remaining_cards_def sum_snd_foldl)

lemma indicator_upto:
  "(\<Sum>i\<leftarrow>[a..b]. if (v::int) = i then 1 else 0) = (if a \<le> v \<and> v \<le> b then (1::nat) else 0)"
proof -
  have "(\<Sum>i\<leftarrow>[a..b]. if v = i then 1 else 0) = (\<Sum>i\<in>{a..b}. if v = i then (1::nat) else 0)"
    by (simp add: sum_list_distinct_conv_sum_set)
  also have "\<dots> = (if a \<le> v \<and> v \<le> b then 1 else 0)"
    by simp
  finally show ?thesis .
qed

lemma count_values_upto:
  "(\<Sum>i\<leftarrow>[a..b]. length (filter (\<lambda>c. card_value c = i) cards))
     = length (filter (\<lambda>c. a \<le> card_value c \<and> card_value c \<le> b) cards)"
proof (induction cards)
  case Nil
  show ?case by simp
next
  case (Cons c cards)
  have "(\<Sum>i\<leftarrow>[a..b]. length (filter (\<lambda>c. card_value c = i) (c # cards)))
      = (\<Sum>i\<leftarrow>[a..b]. (if card_value c = i then 1 else 0) + length (filter (\<lambda>c. card_value c = i) cards))"
    by (rule arg_cong [where f = sum_list]) simp
  also have "\<dots> = (\<Sum>i\<leftarrow>[a..b]. if card_value c = i then 1 else 0)
      + (\<Sum>i\<leftarrow>[a..b]. length (filter (\<lambda>c. card_value c = i) cards))"
    by (simp add: sum_list_addf)
  finally show ?case using Cons by (simp add: indicator_upto)
qed

text \<open>
  What \<^verbatim>\<open>calculate_bust_probability\<close> computes: the share of the shoe's cards whose
  value lies between 22 minus the hand's value and 10. An ace has value 11 and is never
  counted, and the hand's softness is not looked at.
\<close>

lemma calculate_bust_probability_counts:
  "calculate_bust_probability cards player_hand =
     (if cards = [] then 0
      else of_nat (length (filter (\<lambda>c. 22 - hand_value player_hand \<le> card_value c
                                      \<and> card_value c \<le> 10) cards))
           / of_nat (length cards))"
proof -
  have "map (lookup_default (remaining_cards cards)) (py_range (22 - hand_value player_hand) 11)
      = map (\<lambda>i. length (filter (\<lambda>c. card_value c = i) cards)) [22 - hand_value player_hand..10]"
    by (simp add: py_range_def remaining_cards_lookup)
  then show ?thesis
    by (simp add: calculate_bust_probability_def Let_def remaining_cards_total count_values_upto)
qed

text \<open>
  Claim C7 fails on the code. With a soft 16 (ace and five) and a shoe holding one ten,
  the ten cannot bust the hand (the ace is re-valued and the hand stays at 16), so the
  exact fraction is 0; the function returns 1. With a hard 21 and a shoe holding one
  ace, the ace busts the hand (22), so the exact fraction is 1; the function returns 0.
\<close>

theorem calculate_bust_probability_soft_hand:
  "calculate_bust_probability [Card Ten Diamonds] [Card Ace Spades, Card Five Hearts] = 1
   \<and> hand_value ([Card Ace Spades, Card Five Hearts] @ [Card Ten Diamonds]) = 16
   \<and> exact_bust_fraction [Card Ten Diamonds] [Card Ace Spades, Card Five Hearts] = 0
   \<and> calculate_bust_probability [Card Ace Clubs] [Card Ten Spades, Card Five Hearts, Card Six Diamonds] = 0
   \<and> hand_value ([Card Ten Spades, Card Five Hearts, Card Six Diamonds] @ [Card Ace Clubs]) = 22
   \<and> exact_bust_fraction [Card Ace Clubs] [Card Ten Spades, Card Five Hearts, Card Six Diamonds] = 1"
  by (simp add: calculate_bust_probability_counts exact_bust_fraction_def hand_eval)

section \<open>The split table\<close>

lemma pair_value:
  "hand_value [Card r s1, Card r s2] =
     (if r = Ace then 12 else if r \<in> {Jack, Queen, King} then 20 else 2 * rank_int r)"
  by (cases r) (simp_all add: hand_eval)

lemma can_split_pair: "can_split h \<longleftrightarrow> (\<exists>r s1 s2. h = [Card r s1, Card r s2])"
proof
  assume "can_split h"
  then obtain a b where h: "h = [a, b]" "rank a = rank b"
    by (cases h; cases "tl h") (auto simp: can_split_def)
  then show "\<exists>r s1 s2. h = [Card r s1, Card r s2]"
    by (cases a; cases b) auto
next
  assume "\<exists>r s1 s2. h = [Card r s1, Card r s2]"
  then show "can_split h" by (auto simp: can_split_def)
qed

text \<open>
  Claim C1 fails on the code for a pair of aces. The comment of the first branch reads
  "Always split 8s and Aces", but its test \<^verbatim>\<open>player_value in [16, 18]\<close> selects the
  pairs of eights and of nines: two aces are worth 12 and reach the branch for 12, which
  splits against an up-card of 2 to 6 only. Against a ten (or a seven) the answer is Hit.
\<close>

theorem basic_strategy_pair_of_aces:
  "can_split [Card Ace Spades, Card Ace Hearts]
   \<and> hand_value [Card Ace Spades, Card Ace Hearts] = 12
   \<and> basic_strategy [Card Ace Spades, Card Ace Hearts] (Card Ten Diamonds) = Hit
   \<and> basic_strategy [Card Ace Spades, Card Ace Hearts] (Card Seven Diamonds) = Hit"
  by (simp add: basic_strategy_def split_table_def can_split_def pair_value card_value_def)

text \<open>
  What the split block does for every pair: eights and nines are always split, ten-valued
  pairs always stand, twos, threes, sixes and aces are split against 2 to 6, sevens
  against 2 to 7, and fours and fives are never split (they fall through to the other
  tables).
\<close>

lemma basic_strategy_pairs:
  "basic_strategy [Card r s1, Card r s2] up = Split \<longleftrightarrow>
     r \<in> {Eight, Nine}
     \<or> r \<in> {Two, Three, Six, Ace} \<and> 2 \<le> card_value up \<and> card_value up \<le> 6
     \<or> r = Seven \<and> 2 \<le> card_value up \<and> card_value up \<le> 7"
  "r \<in> {Ten, Jack, Queen, King} \<Longrightarrow> basic_strategy [Card r s1, Card r s2] up = Stand"
  by (cases r; cases up; cases "rank up";
      simp add: basic_strategy_def split_table_def double_table_def totals_table_def
        can_split_def pair_value card_value_def)+

section \<open>The two recommendations\<close>

text \<open>
  Claim C6, as the code has it. \<^verbatim>\<open>recommend_action\<close> of \<^verbatim>\<open>advanced-blackjack-ai.py\<close>,
  on a shoe that is not empty, is the overlay in the stated order: Stand when the true
  count is above 2 with a hand of 16 against a ten-valued up-card; else Stand when the
  bust probability is above 0.6; else Stand when the dealer-bust estimate is above 0.5
  and the hand is worth at least 12; else the basic strategy's action.
  \<^verbatim>\<open>recommend_action\<close> of \<^verbatim>\<open>advanced-blackjack-simulation.py\<close>, which the round
  simulation calls, has no probability terms and looks at the count only. With a true
  count above 2 it is Stand for a hand of 16 against a ten-valued up-card, and Stand
  for a hand of 12 against a 2 or a 3 on which the basic strategy says Hit. It is the
  basic strategy's action when the true count is at most 2, and also with a higher
  count when neither the 16 against a ten nor a 12 with a basic Hit is at hand.
  Nothing is said here about a 12 with a basic Hit against an up-card other than 2
  and 3 at a true count above 2.
\<close>

theorem recommend_action_overlays:
  "(cards \<noteq> [] \<longrightarrow>
      (\<exists>dealer_bust_prob.
          fst (simulate_dealer_hand cards dealer_up_card 10000) = Inr dealer_bust_prob
        \<and> fst (ai_recommend_action cards tc player_hand dealer_up_card) =
            Inr (if tc > 2 \<and> hand_value player_hand = 16 \<and> card_value dealer_up_card = 10
                 then Stand
                 else if calculate_bust_probability cards player_hand > 6 / 10 then Stand
                 else if dealer_bust_prob > 1 / 2 \<and> hand_value player_hand \<ge> 12 then Stand
                 else ai_basic_strategy player_hand dealer_up_card)))
   \<and> (true_count (card_counter a) > 2 \<and> hand_value player_hand = 16
        \<and> card_value dealer_up_card = 10
      \<longrightarrow> recommend_action a player_hand dealer_up_card = Stand)
   \<and> (true_count (card_counter a) > 2 \<and> hand_value player_hand = 12
        \<and> basic_strategy player_hand dealer_up_card = Hit
        \<and> card_value dealer_up_card \<in> {2, 3}
      \<longrightarrow> recommend_action a player_hand dealer_up_card = Stand)
   \<and> (\<not> true_count (card_counter a) > 2
      \<longrightarrow> recommend_action a player_hand dealer_up_card
            = basic_strategy player_hand dealer_up_card)
   \<and> (true_count (card_counter a) > 2
        \<and> \<not> (hand_value player_hand = 16 \<and> card_value dealer_up_card = 10)
        \<and> \<not> (basic_strategy player_hand dealer_up_card = Hit \<and> hand_value player_hand = 12)
      \<longrightarrow> recommend_action a player_hand dealer_up_card
            = basic_strategy player_hand dealer_up_card)"
proof -
  have ai_part: "cards \<noteq> [] \<longrightarrow>
      (\<exists>dealer_bust_prob.
          fst (simulate_dealer_hand cards dealer_up_card 10000) = Inr dealer_bust_prob
        \<and> fst (ai_recommend_action cards tc player_hand dealer_up_card) =
            Inr (if tc > 2 \<and> hand_value player_hand = 16 \<and> card_value dealer_up_card = 10
                 then Stand
                 else if calculate_bust_probability cards player_hand > 6 / 10 then Stand
                 else if dealer_bust_prob > 1 / 2 \<and> hand_value player_hand \<ge> 12 then Stand
                 else ai_basic_strategy player_hand dealer_up_card))"
    using ai_recommend_action_chain [of cards dealer_up_card tc player_hand] by blast
  have sixteen: "true_count (card_counter a) > 2 \<and> hand_value player_hand = 16
        \<and> card_value dealer_up_card = 10
      \<longrightarrow> recommend_action a player_hand dealer_up_card = Stand"
    by (simp add: recommend_action_def Let_def)
  have twelve: "true_count (card_counter a) > 2 \<and> hand_value player_hand = 12
        \<and> basic_strategy player_hand dealer_up_card = Hit
        \<and> card_value dealer_up_card \<in> {2, 3}
      \<longrightarrow> recommend_action a player_hand dealer_up_card = Stand"
    by (simp add: recommend_action_def Let_def)
  have low: "\<not> true_count (card_counter a) > 2
      \<longrightarrow> recommend_action a player_hand dealer_up_card
            = basic_strategy player_hand dealer_up_card"
    by (simp add: recommend_action_def Let_def)
  have other: "true_count (card_counter a) > 2
        \<and> \<not> (hand_value player_hand = 16 \<and> card_value dealer_up_card = 10)
        \<and> \<not> (basic_strategy player_hand dealer_up_card = Hit \<and> hand_value player_hand = 12)
      \<longrightarrow> recommend_action a player_hand dealer_up_card
            = basic_strategy player_hand dealer_up_card"
    by (simp add: recommend_action_def Let_def)
  from ai_part sixteen twelve low other show ?thesis by (intro conjI)
qed

lemma hv16: "hand_value [Card Ten Spades, Card Six Hearts] = 16"
  by (simp add: hand_eval)

lemma hv12: "hand_value [Card Ten Spades, Card Two Hearts] = 12"
  by (simp add: hand_eval)

lemma basic_hard_twelve:
  "basic_strategy [Card Ten Spades, Card Two Hearts] (Card Two Diamonds) = Hit"
  "basic_strategy [Card Ten Spades, Card Two Hearts] (Card Seven Diamonds) = Hit"
  by (simp_all add: basic_strategy_def can_split_def double_table_def totals_table_def
      hv12 card_value_def)

theorem recommend_action_overlays_witness:
  "[Card Six Clubs] \<noteq> []
   \<and> fst (ai_recommend_action [Card Six Clubs] 3 [Card Ten Spades, Card Six Hearts] (Card King Diamonds))
       = Inr Stand
   \<and> \<not> true_count (card_counter one_deck_ai) > 2
   \<and> recommend_action one_deck_ai [Card Ten Spades, Card Six Hearts] (Card King Diamonds)
       = basic_strategy [Card Ten Spades, Card Six Hearts] (Card King Diamonds)
   \<and> true_count (card_counter hot_ai) > 2
   \<and> recommend_action hot_ai [Card Ten Spades, Card Six Hearts] (Card King Diamonds) = Stand
   \<and> basic_strategy [Card Ten Spades, Card Two Hearts] (Card Two Diamonds) = Hit
   \<and> recommend_action hot_ai [Card Ten Spades, Card Two Hearts] (Card Two Diamonds) = Stand
   \<and> recommend_action hot_ai [Card Ten Spades, Card Six Hearts] (Card Seven Diamonds)
       = basic_strategy [Card Ten Spades, Card Six Hearts] (Card Seven Diamonds)"
  using recommend_action_overlays [of "[Card Six Clubs]" "Card King Diamonds" 3
      "[Card Ten Spades, Card Six Hearts]" one_deck_ai]
    recommend_action_overlays [of "[Card Six Clubs]" "Card King Diamonds" 3
      "[Card Ten Spades, Card Six Hearts]" hot_ai]
    recommend_action_overlays [of "[Card Six Clubs]" "Card Two Diamonds" 3
      "[Card Ten Spades, Card Two Hearts]" hot_ai]
    recommend_action_overlays [of "[Card Six Clubs]" "Card Seven Diamonds" 3
      "[Card Ten Spades, Card Six Hearts]" hot_ai]
  by (simp add: hv16 hv12 basic_hard_twelve card_value_def one_deck_ai_def hot_ai_def
      CardCounter_def)

text \<open>
  The second deviation of the simulation module's \<^verbatim>\<open>recommend_action\<close> carries the
  comment "Stand on 12 vs dealer 2 or 3 when count is high", but its test does not look
  at the up-card: at a true count of 3 a hard 12 against a 7, on which the basic
  strategy says Hit, is answered with Stand as well.
\<close>

lemma recommend_action_twelve_against_seven:
  "basic_strategy [Card Ten Spades, Card Two Hearts] (Card Seven Diamonds) = Hit
   \<and> recommend_action hot_ai [Card Ten Spades, Card Two Hearts] (Card Seven Diamonds) = Stand"
  by (simp add: recommend_action_def basic_hard_twelve hv12 hot_ai_def)

text \<open>
  Claim C6 as stated fails for the recommendation of the simulation module. With a
  full one-deck shoe and a count of 0, a hand of 16 has a bust probability of 32/52,
  above 0.6, so the stated overlay answers Stand; the function answers Hit, the basic
  strategy's action for 16 against a 7.
\<close>

theorem simulation_recommend_has_no_bust_overlay:
  "recommend_action one_deck_ai [Card Ten Spades, Card Six Hearts] (Card Seven Diamonds) = Hit
   \<and> \<not> true_count (card_counter one_deck_ai) > 2
   \<and> calculate_bust_probability (deck one_deck_ai) [Card Ten Spades, Card Six Hearts] = 8 / 13
   \<and> (6 / 10 :: rat) < 8 / 13"
  by (simp add: recommend_action_def basic_strategy_def can_split_def double_table_def
      totals_table_def one_deck_ai_def CardCounter_def calculate_bust_probability_counts
      fresh_cards_def RANKS_def SUITS_def hv16 card_value_def)

section \<open>What a round writes to the trace\<close>

lemma deals_refl: "deals st st []"
  by (simp add: deals_def)

lemma deals_trans: "deals st st1 cs \<Longrightarrow> deals st1 st2 ds \<Longrightarrow> deals st st2 (cs @ ds)"
  by (simp add: deals_def)

lemma deals_rand: "deals (st\<lparr>rand := g\<rparr>) st' cs \<longleftrightarrow> deals st st' cs"
  by (simp add: deals_def)

lemma map_ai_update:
  assumes "ai p = ai (ps ! i)"
  shows "map ai (ps[i := p]) = map ai ps"
proof (cases "i < length ps")
  case True
  with assms show ?thesis by (simp add: map_update list_update_same_conv)
next
  case False
  then show ?thesis by (simp add: not_less list_update_beyond)
qed

lemma deals_bet:
  "deals (st\<lparr>players := (players st)[i := (players st ! i)\<lparr>bet_size := b\<rparr>]\<rparr>) st' cs
     \<longleftrightarrow> deals st st' cs"
  by (simp add: deals_def map_ai_update)

lemma draw_from_deals: "draw_from a st = Inr (c, st') \<Longrightarrow> deals st st' [c]"
  by (auto simp: draw_from_def deals_def split: sum.splits)

lemma mset_concat_update:
  "j < length hs \<Longrightarrow> mset (concat (hs[j := h])) + mset (hs ! j) = mset (concat hs) + mset h"
proof (induction hs arbitrary: j)
  case Nil
  then show ?case by simp
next
  case (Cons x hs)
  show ?case
  proof (cases j)
    case 0
    then show ?thesis by simp
  next
    case (Suc k)
    with Cons.prems have "k < length hs" by simp
    from Cons.IH [OF this] Suc show ?thesis by (simp add: ac_simps)
  qed
qed

lemma mset_concat_snoc:
  "j < length hs \<Longrightarrow> mset (concat (hs[j := hs ! j @ [c]])) = mset (concat hs) + {#c#}"
  using mset_concat_update [of j hs "hs ! j @ [c]"] by simp

lemma turn_step_deals:
  assumes "turn_step decision i j hs st = Inr (fl, hs', st')" "j < length hs"
  shows "\<exists>cs. deals st st' cs \<and> mset (concat hs') = mset (concat hs) + mset cs
            \<and> length hs \<le> length hs'"
proof (cases decision)
  case Hit
  with assms obtain c where c: "draw_from (ai (players st ! i)) st = Inr (c, st')"
    "hs' = hs[j := hs ! j @ [c]]"
    by (auto simp: turn_step_def Let_def split: sum.splits)
  from draw_from_deals [OF c(1)] c(2) assms(2) show ?thesis
    by (intro exI [of _ "[c]"]) (simp add: mset_concat_snoc)
next
  case Stand
  with assms have "hs' = hs" "st' = st" by (auto simp: turn_step_def Let_def)
  then show ?thesis by (intro exI [of _ "[]"]) (simp add: deals_refl)
next
  case Double
  show ?thesis
  proof (cases "length (hs ! j) = 2")
    case False
    with Double assms have "hs' = hs" "st' = st" by (auto simp: turn_step_def Let_def)
    then show ?thesis by (intro exI [of _ "[]"]) (simp add: deals_refl)
  next
    case True
    with Double assms obtain c where c:
      "draw_from (ai (players st ! i))
         (st\<lparr>players := (players st)[i := (players st ! i)\<lparr>bet_size := bet_size (players st ! i) * 2\<rparr>]\<rparr>)
       = Inr (c, st')"
      "hs' = hs[j := hs ! j @ [c]]"
      by (auto simp: turn_step_def Let_def split: sum.splits)
    from draw_from_deals [OF c(1)] have "deals st st' [c]" by (simp add: deals_bet)
    with c(2) assms(2) show ?thesis
      by (intro exI [of _ "[c]"]) (simp add: mset_concat_snoc)
  qed
next
  case Split
  show ?thesis
  proof (cases "can_split (hs ! j) \<and> length hs < 4")
    case False
    with Split assms have "hs' = hs" "st' = st" by (auto simp: turn_step_def Let_def)
    then show ?thesis by (intro exI [of _ "[]"]) (simp add: deals_refl)
  next
    case True
    with Split assms obtain c1 st1 c2 where c:
      "draw_from (ai (players st ! i)) st = Inr (c1, st1)"
      "draw_from (ai (players st ! i)) st1 = Inr (c2, st')"
      "hs' = hs[j := butlast (hs ! j) @ [c1]] @ [[last (hs ! j)] @ [c2]]"
      by (auto simp: turn_step_def Let_def split: sum.splits)
    from True have ne: "hs ! j \<noteq> []" by (auto simp: can_split_def)
    from deals_trans [OF draw_from_deals [OF c(1)] draw_from_deals [OF c(2)]]
    have d: "deals st st' [c1, c2]" by simp
    have "mset (concat (hs[j := butlast (hs ! j) @ [c1]])) + mset (hs ! j)
        = mset (concat hs) + mset (butlast (hs ! j) @ [c1])"
      by (rule mset_concat_update [OF assms(2)])
    moreover have "mset (hs ! j) = mset (butlast (hs ! j)) + {#last (hs ! j)#}"
    proof -
      from ne have "mset (hs ! j) = mset (butlast (hs ! j) @ [last (hs ! j)])" by simp
      then show ?thesis by simp
    qed
    ultimately have "mset (concat (hs[j := butlast (hs ! j) @ [c1]])) + {#last (hs ! j)#}
        = mset (concat hs) + {#c1#}"
      by (simp add: ac_simps)
    then have "mset (concat hs') = mset (concat hs) + mset [c1, c2]"
      using c(3) by (simp add: ac_simps)
    with d c(3) show ?thesis by (intro exI [of _ "[c1, c2]"]) simp
  qed
qed

lemma player_turn_deals:
  "player_turn n i j up hs st = Some (Inr (hs', st')) \<Longrightarrow> j < length hs \<Longrightarrow>
   \<exists>cs. deals st st' cs \<and> mset (concat hs') = mset (concat hs) + mset cs
        \<and> length hs \<le> length hs'"
proof (induction n arbitrary: hs st)
  case 0
  then show ?case by simp
next
  case (Suc n)
  obtain decision g' where md:
    "make_decision (players st ! i) (ais st (ai (players st ! i))) (hs ! j) up (rand st) = (decision, g')"
    by (cases "make_decision (players st ! i) (ais st (ai (players st ! i))) (hs ! j) up (rand st)")
  show ?case
  proof (cases "turn_step decision i j hs (st\<lparr>rand := g'\<rparr>)")
    case (Inl e)
    with Suc.prems(1) md show ?thesis by (simp add: Let_def)
  next
    case (Inr res)
    then obtain fl hs1 st1 where ts: "turn_step decision i j hs (st\<lparr>rand := g'\<rparr>) = Inr (fl, hs1, st1)"
      by (cases res) auto
    from turn_step_deals [OF ts Suc.prems(2)] obtain cs where cs:
      "deals st st1 cs" "mset (concat hs1) = mset (concat hs) + mset cs" "length hs \<le> length hs1"
      by (auto simp: deals_rand)
    show ?thesis
    proof (cases fl)
      case Break
      with Suc.prems(1) md ts have "hs' = hs1" "st' = st1" by (simp_all add: Let_def)
      with cs show ?thesis by blast
    next
      case Again
      with Suc.prems(1) md ts have "player_turn n i j up hs1 st1 = Some (Inr (hs', st'))"
        by (simp add: Let_def)
      moreover from cs(3) Suc.prems(2) have "j < length hs1" by simp
      ultimately obtain ds where ds:
        "deals st1 st' ds" "mset (concat hs') = mset (concat hs1) + mset ds" "length hs1 \<le> length hs'"
        using Suc.IH by blast
      from deals_trans [OF cs(1) ds(1)] cs(2,3) ds(2,3) show ?thesis
        by (intro exI [of _ "cs @ ds"]) simp
    qed
  qed
qed

lemma play_hands_deals:
  "play_hands n i j up hs st = Some (Inr (hs', st')) \<Longrightarrow>
   \<exists>cs. deals st st' cs \<and> mset (concat hs') = mset (concat hs) + mset cs"
proof (induction n arbitrary: j hs st)
  case 0
  then show ?case by (auto simp: deals_refl split: if_splits intro: exI [of _ "[]"])
next
  case (Suc n)
  show ?case
  proof (cases "j < length hs")
    case False
    with Suc.prems have "hs' = hs" "st' = st" by simp_all
    then show ?thesis by (intro exI [of _ "[]"]) (simp add: deals_refl)
  next
    case True
    with Suc.prems obtain hs1 st1 where pt:
      "player_turn n i j up hs st = Some (Inr (hs1, st1))"
      "play_hands n i (j + 1) up hs1 st1 = Some (Inr (hs', st'))"
      by (auto split: option.splits sum.splits)
    from player_turn_deals [OF pt(1) True] obtain cs where cs:
      "deals st st1 cs" "mset (concat hs1) = mset (concat hs) + mset cs" by blast
    from Suc.IH [OF pt(2)] obtain ds where ds:
      "deals st1 st' ds" "mset (concat hs') = mset (concat hs1) + mset ds" by blast
    from deals_trans [OF cs(1) ds(1)] cs(2) ds(2) show ?thesis
      by (intro exI [of _ "cs @ ds"]) simp
  qed
qed

lemma dealer_turn_deals:
  "dealer_turn a dh st = Inr (dh', st') \<Longrightarrow> \<exists>cs. deals st st' cs \<and> dh' = dh @ cs"
proof (induction a dh st rule: dealer_turn.induct)
  case (1 a dh st)
  show ?case
  proof (cases "hand_value dh < 17")
    case False
    with "1.prems" have "dh' = dh" "st' = st" by (simp_all add: dealer_turn.simps)
    then show ?thesis by (intro exI [of _ "[]"]) (simp add: deals_refl)
  next
    case True
    with "1.prems" obtain c st1 where c: "draw_from a st = Inr (c, st1)"
      "dealer_turn a (dh @ [c]) st1 = Inr (dh', st')"
      by (subst (asm) dealer_turn.simps) (auto split: sum.splits)
    from "1.IH" [OF True c(1) refl c(2)] obtain cs where
      "deals st1 st' cs" "dh' = (dh @ [c]) @ cs" by blast
    with deals_trans [OF draw_from_deals [OF c(1)]] show ?thesis
      by (intro exI [of _ "[c] @ cs"]) simp
  qed
qed

text \<open>Settlement writes one event for each hand of the seat and changes no AI reference.\<close>

lemma settle_trace:
  "trace (settle i j dh hs st) = trace st @ map (Settled i) [j..<j + length hs]
   \<and> map ai (players (settle i j dh hs st)) = map ai (players st)
   \<and> ais (settle i j dh hs st) = ais st"
proof (induction hs arbitrary: j st)
  case Nil
  show ?case by simp
next
  case (Cons h hs)
  have "ai (settle_hand dh h (players st ! i)) = ai (players st ! i)"
    by (simp add: settle_hand_def)
  moreover have "[j..<j + length (h # hs)] = j # [Suc j..<Suc j + length hs]"
    by (subst upt_rec) simp
  ultimately show ?case
    by (simp add: Cons map_ai_update del: upt_Suc)
qed

lemma update_counter_trace:
  "trace (update_counter a cs st) = trace st @ map (Updated a) cs
   \<and> players (update_counter a cs st) = players st"
  by (induction cs arbitrary: st) simp_all

lemma deal_seat_deals:
  "deal_seat a st = Inr (hs, st') \<Longrightarrow> \<exists>c1 c2. hs = [[c1, c2]] \<and> deals st st' [c1, c2]"
proof -
  assume "deal_seat a st = Inr (hs, st')"
  then obtain c1 st1 c2 where c: "draw_from a st = Inr (c1, st1)"
    "draw_from a st1 = Inr (c2, st')" "hs = [[c1, c2]]"
    by (auto simp: deal_seat_def split: sum.splits)
  from deals_trans [OF draw_from_deals [OF c(1)] draw_from_deals [OF c(2)]] c(3)
  show ?thesis by simp
qed

lemma hole_card_deals:
  "hole_card european_rules a dh st = Inr (dh', st') \<Longrightarrow> \<exists>cs. deals st st' cs \<and> dh' = dh @ cs"
proof (cases european_rules)
  case True
  assume "hole_card european_rules a dh st = Inr (dh', st')"
  with True obtain c where "draw_from a st = Inr (c, st')" "dh' = dh @ [c]"
    by (auto simp: hole_card_def split: sum.splits)
  with draw_from_deals [of a st c st'] show ?thesis by blast
next
  case False
  assume "hole_card european_rules a dh st = Inr (dh', st')"
  with False have "st' = st" "dh' = dh" by (simp_all add: hole_card_def)
  then show ?thesis by (intro exI [of _ "[]"]) (simp add: deals_refl)
qed

lemma length_ai_eq: "map ai ps' = map ai ps \<Longrightarrow> length ps' = length ps"
proof -
  assume "map ai ps' = map ai ps"
  then have "length (map ai ps') = length (map ai ps)" by (rule arg_cong)
  then show ?thesis by simp
qed

lemma nth_ai_eq:
  assumes "map ai ps' = map ai ps" and "i < length ps"
  shows "ai (ps' ! i) = ai (ps ! i)"
proof -
  from assms(1) have "map ai ps' ! i = map ai ps ! i" by simp
  with assms(2) length_ai_eq [OF assms(1)] show ?thesis by simp
qed

lemma finish_seat_trace:
  assumes "i < length (players st)"
  shows "trace (finish_seat i dh hs st) =
     trace st @ map (Settled i) [0..<length hs] @ map (Updated (ai (players st ! i))) (dh @ concat hs)
   \<and> map ai (players (finish_seat i dh hs st)) = map ai (players st)"
proof -
  let ?st1 = "settle i 0 dh hs st"
  let ?st2 = "?st1\<lparr>players := (players ?st1)[i := (players ?st1 ! i)\<lparr>bet_size := 10\<rparr>]\<rparr>"
  have m: "map ai (players ?st2) = map ai (players st)"
    using settle_trace [of i 0 dh hs st] by (simp add: map_ai_update)
  from nth_ai_eq [OF m assms] have "ai (players ?st2 ! i) = ai (players st ! i)" .
  then show ?thesis
    using settle_trace [of i 0 dh hs st] m
    by (simp add: finish_seat_def Let_def update_counter_trace)
qed

text \<open>
  One seat: the cards drawn during the seat's turn come first, then the settlement of
  each of its hands, then one update for every card of the dealer's hand and of the
  seat's hands. These are the dealer's cards from before the seat's turn and the cards
  the seat's turn drew.
\<close>

lemma play_seat_trace:
  assumes "play_seat fuel european_rules i dealer_hand st = Some (Inr (dealer_hand', st'))"
    and "i < length (players st)"
  shows "\<exists>cs n us. trace st' = trace st @ map Dealt cs @ map (Settled i) [0..<n]
              @ map (Updated (ai (players st ! i))) us
            \<and> mset us = mset dealer_hand + mset cs
            \<and> map ai (players st') = map ai (players st)"
proof -
  define a where "a = ai (players st ! i)"
  from assms(1) obtain hs0 st1 hs st2 dh1 st3 st4 where steps:
    "deal_seat a st = Inr (hs0, st1)"
    "play_hands fuel i 0 (dealer_hand ! 0) hs0 st1 = Some (Inr (hs, st2))"
    "hole_card european_rules a dealer_hand st2 = Inr (dh1, st3)"
    "dealer_turn a dh1 st3 = Inr (dealer_hand', st4)"
    "st' = finish_seat i dealer_hand' hs st4"
    unfolding play_seat_def a_def Let_def
    by (auto split: sum.splits option.splits)
  from deal_seat_deals [OF steps(1)] obtain c1 c2 where d2:
    "hs0 = [[c1, c2]]" "deals st st1 [c1, c2]" by blast
  from play_hands_deals [OF steps(2)] d2(1) obtain cs where cs:
    "deals st1 st2 cs" "mset (concat hs) = mset [c1, c2] + mset cs" by auto
  from hole_card_deals [OF steps(3)] obtain es where es:
    "deals st2 st3 es" "dh1 = dealer_hand @ es" by blast
  from dealer_turn_deals [OF steps(4)] obtain fs where fs:
    "deals st3 st4 fs" "dealer_hand' = dh1 @ fs" by blast
  let ?cs = "[c1, c2] @ cs @ es @ fs"
  let ?us = "dealer_hand' @ concat hs"
  from deals_trans [OF deals_trans [OF deals_trans [OF d2(2) cs(1)] es(1)] fs(1)]
  have all: "deals st st4 ?cs" by simp
  then have m: "map ai (players st4) = map ai (players st)" by (simp add: deals_def)
  from length_ai_eq [OF m] assms(2) have len: "i < length (players st4)" by simp
  from nth_ai_eq [OF m assms(2)] have ai4: "ai (players st4 ! i) = a" by (simp add: a_def)
  have "trace st' = trace st @ map Dealt ?cs @ map (Settled i) [0..<length hs]
          @ map (Updated a) ?us"
    using all ai4 finish_seat_trace [OF len, of dealer_hand' hs]
    by (simp add: steps(5) deals_def)
  moreover have "mset ?us = mset dealer_hand + mset ?cs"
    using cs(2) es(2) fs(2) by simp
  moreover have "map ai (players st') = map ai (players st)"
    using m finish_seat_trace [OF len, of dealer_hand' hs] by (simp add: steps(5))
  ultimately show ?thesis unfolding a_def by blast
qed

lemmas round_eval =
  play_round_def deal_dealer_def reshuffle_check_def draw_from_def draw_def
  play_seat_def deal_seat_def hole_card_def finish_seat_def turn_step_def
  make_decision_def skill_or_random_def random_random_def random_choice_def randbelow_def
  recommend_action_def basic_strategy_def split_table_def double_table_def totals_table_def
  can_split_def dealer_turn.simps settle_hand_def update_def count_change_def CardCounter_def
  fresh_cards_def RANKS_def SUITS_def Let_def hand_eval

lemma two_seats_trace:
  "(case play_round 3 False two_seats of Some (Inr (r, st)) \<Rightarrow> trace st | _ \<Rightarrow> []) =
     [Dealt (Card King Clubs), Dealt (Card King Diamonds),
      Dealt (Card King Hearts), Dealt (Card King Spades), Settled 0 0,
      Updated 0 (Card King Clubs), Updated 0 (Card King Diamonds),
      Updated 0 (Card King Hearts), Updated 0 (Card King Spades),
      Dealt (Card Queen Clubs), Dealt (Card Queen Diamonds), Settled 1 0,
      Updated 0 (Card King Clubs), Updated 0 (Card King Diamonds),
      Updated 0 (Card Queen Clubs), Updated 0 (Card Queen Diamonds)]"
  by (simp add: two_seats_def one_deck_ai_def expert_def round_eval numeral_3_eq_3)

lemma reshuffle_check_frame:
  "trace (reshuffle_check a st) = trace st \<and> players (reshuffle_check a st) = players st"
  by (simp add: reshuffle_check_def split: prod.splits)

lemma deal_dealer_deals:
  "deal_dealer european_rules a st = Inr (dh, st') \<Longrightarrow> deals st st' dh"
proof -
  assume d: "deal_dealer european_rules a st = Inr (dh, st')"
  then obtain c st1 where c: "draw_from a st = Inr (c, st1)"
    by (auto simp: deal_dealer_def split: sum.splits)
  show ?thesis
  proof (cases european_rules)
    case True
    with d c have "dh = [c]" "st' = st1" by (simp_all add: deal_dealer_def)
    with draw_from_deals [OF c] show ?thesis by simp
  next
    case False
    with d c obtain c' where c': "draw_from a st1 = Inr (c', st')" "dh = [c, c']"
      by (auto simp: deal_dealer_def split: sum.splits)
    from deals_trans [OF draw_from_deals [OF c] draw_from_deals [OF c'(1)]] c'(2)
    show ?thesis by simp
  qed
qed

text \<open>
  A round with a single seat: the cards dealt come first (the dealer's cards and every
  card the seat drew, for its first two cards, hits, doubles and splits), then the
  settlement of the seat's hands, then the counter updates; and the updated cards are
  the dealt cards, each as often as it was dealt.
\<close>

lemma single_seat_round_trace:
  assumes "play_round fuel european_rules st = Some (Inr (bankrolls, st'))"
    and "length (players st) = 1"
  shows "\<exists>cs n us. trace st' = trace st @ map Dealt cs @ map (Settled 0) [0..<n]
              @ map (Updated (ai (players st ! 0))) us
            \<and> mset us = mset cs"
proof -
  from assms(2) obtain p0 where p0: "players st = [p0]"
    by (cases "players st") auto
  let ?st0 = "reshuffle_check (ai p0) st"
  from assms(1) p0 obtain dh st1 dh' where steps:
    "deal_dealer european_rules (ai p0) ?st0 = Inr (dh, st1)"
    "play_seats fuel european_rules [0..<length (players st1)] dh st1 = Some (Inr (dh', st'))"
    by (auto simp: play_round_def split: sum.splits option.splits)
  from deal_dealer_deals [OF steps(1)] have d1: "deals ?st0 st1 dh" .
  with reshuffle_check_frame [of "ai p0" st] p0
  have t1: "trace st1 = trace st @ map Dealt dh" and m1: "map ai (players st1) = [ai p0]"
    by (simp_all add: deals_def)
  from m1 have m1': "map ai (players st1) = map ai [p0]" by simp
  from length_ai_eq [OF m1'] have len1: "length (players st1) = 1" by simp
  from nth_ai_eq [OF m1', of 0] have a1: "ai (players st1 ! 0) = ai p0" by simp
  from steps(2) len1 have "play_seat fuel european_rules 0 dh st1 = Some (Inr (dh', st'))"
    by (auto split: option.splits sum.splits)
  from play_seat_trace [OF this] len1 a1 obtain cs n us where
    "trace st' = trace st1 @ map Dealt cs @ map (Settled 0) [0..<n] @ map (Updated (ai p0)) us"
    "mset us = mset dh + mset cs"
    by auto
  with t1 p0 have "trace st' = trace st @ map Dealt (dh @ cs) @ map (Settled 0) [0..<n]
      @ map (Updated (ai (players st ! 0))) us \<and> mset us = mset (dh @ cs)"
    by simp
  then show ?thesis by blast
qed

text \<open>
  Claim C3, as the code has it. In a completed round with a single seat each dealt
  card causes exactly one counter update, and the updates come after the settlement of
  the seat's hands. With any number of seats this holds seat by seat: the part of a
  round that belongs to seat \<open>i\<close> first draws cards, then settles the seat's hands,
  then updates the counter of the seat's AI object once for each card the dealer held
  when the seat's turn began and once for each card drawn during the seat's part. So
  the dealer's cards are counted once for every seat.
\<close>

theorem round_updates_after_settlement:
  "(play_round fuel european_rules st = Some (Inr (bankrolls, st')) \<and> length (players st) = 1
      \<longrightarrow> (\<exists>cs n us. trace st' = trace st @ map Dealt cs @ map (Settled 0) [0..<n]
                  @ map (Updated (ai (players st ! 0))) us
                \<and> mset us = mset cs))
   \<and> (play_seat fuel european_rules i dealer_hand t = Some (Inr (dealer_hand', t'))
        \<and> i < length (players t)
      \<longrightarrow> (\<exists>cs n us. trace t' = trace t @ map Dealt cs @ map (Settled i) [0..<n]
                  @ map (Updated (ai (players t ! i))) us
                \<and> mset us = mset dealer_hand + mset cs))"
proof (intro conjI impI)
  assume "play_round fuel european_rules st = Some (Inr (bankrolls, st')) \<and> length (players st) = 1"
  then show "\<exists>cs n us. trace st' = trace st @ map Dealt cs @ map (Settled 0) [0..<n]
                  @ map (Updated (ai (players st ! 0))) us \<and> mset us = mset cs"
    using single_seat_round_trace by blast
next
  assume "play_seat fuel european_rules i dealer_hand t = Some (Inr (dealer_hand', t'))
        \<and> i < length (players t)"
  then have "\<exists>cs n us. trace t' = trace t @ map Dealt cs @ map (Settled i) [0..<n]
              @ map (Updated (ai (players t ! i))) us
            \<and> mset us = mset dealer_hand + mset cs
            \<and> map ai (players t') = map ai (players t)"
    using play_seat_trace [of fuel european_rules i dealer_hand t dealer_hand' t'] by blast
  then show "\<exists>cs n us. trace t' = trace t @ map Dealt cs @ map (Settled i) [0..<n]
                  @ map (Updated (ai (players t ! i))) us
                \<and> mset us = mset dealer_hand + mset cs"
    by blast
qed

lemma one_seat_returns:
  "case play_round 3 False one_seat of Some (Inr (r, st)) \<Rightarrow> r = [1000] | _ \<Rightarrow> False"
  by (simp add: one_seat_def one_deck_ai_def expert_def round_eval numeral_3_eq_3)

lemma two_seats_second_seat:
  "\<exists>dh t dh' t'. play_seat 3 False 1 dh t = Some (Inr (dh', t')) \<and> 1 < length (players t)"
proof -
  from two_seats_trace obtain r st where
    r: "play_round 3 False two_seats = Some (Inr (r, st))"
    by (cases "play_round 3 False two_seats") (auto split: sum.splits)
  have p: "players two_seats = [expert, expert]" by (simp add: two_seats_def)
  let ?st0 = "reshuffle_check (ai expert) two_seats"
  from r p obtain dh st1 dh' where steps:
    "deal_dealer False (ai expert) ?st0 = Inr (dh, st1)"
    "play_seats 3 False [0..<length (players st1)] dh st1 = Some (Inr (dh', st))"
    by (auto simp: play_round_def split: sum.splits option.splits)
  from deal_dealer_deals [OF steps(1)] reshuffle_check_frame [of "ai expert" two_seats] p
  have "map ai (players st1) = map ai [expert, expert]" by (simp add: deals_def)
  from length_ai_eq [OF this] have len1: "length (players st1) = 2" by simp
  then have "[0..<length (players st1)] = [0, 1]" by (simp add: numeral_2_eq_2)
  with steps(2) obtain dh1 t where seats:
    "play_seat 3 False 0 dh st1 = Some (Inr (dh1, t))"
    "play_seat 3 False 1 dh1 t = Some (Inr (dh', st))"
    by (auto split: option.splits sum.splits)
  from play_seat_trace [OF seats(1)] len1 have "map ai (players t) = map ai (players st1)"
    by auto
  from length_ai_eq [OF this] len1 have "1 < length (players t)" by simp
  with seats(2) show ?thesis by blast
qed

theorem round_updates_after_settlement_witness:
  "(\<exists>r st'. play_round 3 False one_seat = Some (Inr (r, st')) \<and> length (players one_seat) = 1
     \<and> (\<exists>cs n us. trace st' = trace one_seat @ map Dealt cs @ map (Settled 0) [0..<n]
              @ map (Updated (ai (players one_seat ! 0))) us
            \<and> mset us = mset cs))
   \<and> (\<exists>dh t dh' t'. play_seat 3 False 1 dh t = Some (Inr (dh', t')) \<and> 1 < length (players t)
     \<and> (\<exists>cs n us. trace t' = trace t @ map Dealt cs @ map (Settled 1) [0..<n]
              @ map (Updated (ai (players t ! 1))) us
            \<and> mset us = mset dh + mset cs))"
proof -
  from one_seat_returns obtain r st' where r: "play_round 3 False one_seat = Some (Inr (r, st'))"
    by (auto split: option.splits sum.splits)
  have l: "length (players one_seat) = 1" by (simp add: one_seat_def)
  from two_seats_second_seat obtain dh t dh' t' where
    s: "play_seat 3 False 1 dh t = Some (Inr (dh', t'))" "1 < length (players t)" by blast
  from round_updates_after_settlement [of 3 False one_seat r st' 1 dh t dh' t'] r l s
  have "(\<exists>cs n us. trace st' = trace one_seat @ map Dealt cs @ map (Settled 0) [0..<n]
              @ map (Updated (ai (players one_seat ! 0))) us
            \<and> mset us = mset cs)
     \<and> (\<exists>cs n us. trace t' = trace t @ map Dealt cs @ map (Settled 1) [0..<n]
              @ map (Updated (ai (players t ! 1))) us
            \<and> mset us = mset dh + mset cs)"
    by simp
  with r l s show ?thesis by blast
qed

text \<open>
  Claim C3 as stated fails with two seats. The update loop stands inside the loop over
  the seats, after that seat's settlement, and runs over the dealer's hand and the
  seat's hands: the dealer's cards are counted again for every seat, and the updates of
  the first seat precede the settlement of the second. Here two players share one AI
  object (one shoe, one counter); the dealer's king of clubs is dealt once and updates
  the counter twice.
\<close>

theorem two_seats_dealer_cards_updated_twice:
  "(case play_round 3 False two_seats of Some (Inr (r, st)) \<Rightarrow> trace st | _ \<Rightarrow> []) =
     [Dealt (Card King Clubs), Dealt (Card King Diamonds),
      Dealt (Card King Hearts), Dealt (Card King Spades), Settled 0 0,
      Updated 0 (Card King Clubs), Updated 0 (Card King Diamonds),
      Updated 0 (Card King Hearts), Updated 0 (Card King Spades),
      Dealt (Card Queen Clubs), Dealt (Card Queen Diamonds), Settled 1 0,
      Updated 0 (Card King Clubs), Updated 0 (Card King Diamonds),
      Updated 0 (Card Queen Clubs), Updated 0 (Card Queen Diamonds)]
   \<and> count_list (case play_round 3 False two_seats of Some (Inr (r, st)) \<Rightarrow> trace st | _ \<Rightarrow> [])
        (Dealt (Card King Clubs)) = 1
   \<and> count_list (case play_round 3 False two_seats of Some (Inr (r, st)) \<Rightarrow> trace st | _ \<Rightarrow> [])
        (Updated 0 (Card King Clubs)) = 2"
  by (simp add: two_seats_trace)

section \<open>The reshuffle\<close>

lemma randbelow_less: "0 < n \<Longrightarrow> fst (randbelow n g) < n"
  by (simp add: randbelow_def)

lemma shuffle_loop_mset:
  "k < length x \<Longrightarrow> mset (fst (shuffle_loop k x g)) = mset x"
proof (induction k arbitrary: x g)
  case 0
  show ?case by simp
next
  case (Suc k)
  obtain j g' where j: "randbelow (Suc k + 1) g = (j, g')"
    by (cases "randbelow (Suc k + 1) g")
  with randbelow_less [of "Suc k + 1" g] have "j < Suc k + 1" by simp
  with Suc.prems have jl: "j < length x" by simp
  let ?x = "x[Suc k := x ! j, j := x ! Suc k]"
  from Suc.prems have "k < length ?x" by simp
  from Suc.IH [OF this] have "mset (fst (shuffle_loop k ?x g')) = mset ?x" .
  also have "\<dots> = mset x" using jl Suc.prems by (simp add: mset_swap)
  finally show ?case using j by simp
qed

lemma shuffle_mset: "mset (fst (shuffle x g)) = mset x"
proof (cases x)
  case Nil
  then show ?thesis by (simp add: shuffle_def)
next
  case (Cons a xs)
  then have "length x - 1 < length x" by simp
  then show ?thesis unfolding shuffle_def by (rule shuffle_loop_mset)
qed

lemma length_fresh_cards: "length (fresh_cards n) = n * 52"
  by (induction n) (simp_all add: fresh_cards_def RANKS_def SUITS_def)

lemma Deck_mset: "mset (fst (Deck n g)) = mset (fresh_cards n)"
  by (simp add: Deck_def shuffle_mset)

lemma Deck_length: "length (fst (Deck n g)) = n * 52"
proof -
  have "size (mset (fst (Deck n g))) = size (mset (fresh_cards n))"
    by (simp add: Deck_mset)
  then show ?thesis by (simp add: length_fresh_cards)
qed

lemma BlackjackAI_deck_length: "length (deck (fst (BlackjackAI n sys g))) = n * 52"
  using Deck_length [of n g] by (auto simp: BlackjackAI_def split: prod.splits)

lemma reshuffle_check_noop:
  "\<not> length (deck (ais st a)) < 52 \<Longrightarrow> reshuffle_check a st = st"
  by (simp add: reshuffle_check_def)

text \<open>
  Claim C4, as the code has it. When the shoe of the first player's AI object holds
  fewer than 52 cards at the start of a round, the round is played on the table with
  that shoe replaced by a freshly shuffled \<^verbatim>\<open>Deck(6)\<close>: it holds 6 \<times> 52 = 312 cards,
  a permutation of six full decks, whatever number of decks the AI object was built
  with. The reshuffle leaves the running count and the true count of every counter
  as they were; it sets the decks remaining of that AI object's counter to 6 and
  writes nothing to the trace.
\<close>

theorem reshuffle_six_decks_count_kept:
  assumes "players st = p0 # ps" and "length (deck (ais st (ai p0))) < 52"
  shows "play_round fuel european_rules st
           = play_round fuel european_rules (reshuffle_check (ai p0) st)
    \<and> length (deck (ais (reshuffle_check (ai p0) st) (ai p0))) = 6 * 52
    \<and> mset (deck (ais (reshuffle_check (ai p0) st) (ai p0))) = mset (fresh_cards 6)
    \<and> count_cc (card_counter (ais (reshuffle_check (ai p0) st) b))
        = count_cc (card_counter (ais st b))
    \<and> true_count (card_counter (ais (reshuffle_check (ai p0) st) b))
        = true_count (card_counter (ais st b))
    \<and> decks_remaining (card_counter (ais (reshuffle_check (ai p0) st) (ai p0))) = 6
    \<and> trace (reshuffle_check (ai p0) st) = trace st"
proof -
  let ?st0 = "reshuffle_check (ai p0) st"
  obtain cards g' where d: "Deck 6 (rand st) = (cards, g')" by (cases "Deck 6 (rand st)")
  with Deck_length [of 6 "rand st"] Deck_mset [of 6 "rand st"]
  have c: "length cards = 6 * 52" "mset cards = mset (fresh_cards 6)" by simp_all
  from assms(2) d have st0: "?st0 = st\<lparr>ais := (ais st)(ai p0 := (ais st (ai p0))\<lparr>deck := cards,
        card_counter := (card_counter (ais st (ai p0)))\<lparr>decks_remaining := 6\<rparr>\<rparr>), rand := g'\<rparr>"
    by (simp add: reshuffle_check_def)
  from st0 c have len: "length (deck (ais ?st0 (ai p0))) = 6 * 52" by simp
  then have "reshuffle_check (ai p0) ?st0 = ?st0" by (simp add: reshuffle_check_noop)
  moreover from st0 assms(1) have "players ?st0 = p0 # ps" by simp
  ultimately have "play_round fuel european_rules ?st0 = play_round fuel european_rules st"
    using assms(1) by (simp add: play_round_def)
  with len st0 c(2) show ?thesis by simp
qed

theorem reshuffle_six_decks_count_kept_witness:
  "players worn_table = expert # [] \<and> length (deck (ais worn_table (ai expert))) < 52
   \<and> length (deck (ais (reshuffle_check (ai expert) worn_table) (ai expert))) = 312
   \<and> count_cc (card_counter (ais (reshuffle_check (ai expert) worn_table) 0)) = - 1
   \<and> true_count (card_counter (ais (reshuffle_check (ai expert) worn_table) 0)) = - (52 / 311)
   \<and> decks_remaining (card_counter (ais (reshuffle_check (ai expert) worn_table) (ai expert))) = 6"
proof -
  have p: "players worn_table = expert # []" by (simp add: worn_table_def)
  have l: "length (deck (ais worn_table (ai expert))) < 52"
    by (simp add: worn_table_def worn_ai_def)
  from reshuffle_six_decks_count_kept [OF p l, of 0 False 0] p l show ?thesis
    by (simp add: worn_table_def worn_ai_def)
qed

text \<open>
  Claim C4 as stated fails where the AI object was built with a number of decks other
  than 6: \<^verbatim>\<open>BlackjackAI(num_decks=1)\<close> starts with 52 cards, one draw leaves 51, and
  the reshuffle then installs 312 cards, not 1 \<times> 52.
\<close>

theorem reshuffle_ignores_num_decks:
  "length (deck (ais single_deck_table 0)) = 1 * 52
   \<and> (case draw_from 0 single_deck_table of
        Inl e \<Rightarrow> False
      | Inr (c, st) \<Rightarrow>
          length (deck (ais st 0)) = 51
          \<and> length (deck (ais (reshuffle_check 0 st) 0)) = 312
          \<and> length (deck (ais (reshuffle_check 0 st) 0)) \<noteq> 1 * 52)"
proof -
  have l: "length (deck (ais single_deck_table 0)) = 52"
    using BlackjackAI_deck_length [of 1] by (simp add: single_deck_table_def)
  then have ne: "deck (ais single_deck_table 0) \<noteq> []" by auto
  then obtain c st where d: "draw_from 0 single_deck_table = Inr (c, st)"
    by (auto simp: draw_from_def draw_def)
  with l ne have l51: "length (deck (ais st 0)) = 51"
    by (auto simp: draw_from_def draw_def)
  obtain cards g' where dk: "Deck 6 (rand st) = (cards, g')" by (cases "Deck 6 (rand st)")
  with Deck_length [of 6 "rand st"] have "length cards = 312" by simp
  with l51 dk have "length (deck (ais (reshuffle_check 0 st) 0)) = 312"
    by (simp add: reshuffle_check_def)
  with l d l51 show ?thesis by simp
qed

section \<open>Illegal Double and Split in the turn loop\<close>

lemma illegal_request_step:
  assumes "make_decision (players st ! i) (ais st (ai (players st ! i))) (hs ! j) up_card (rand st)
             = (decision, g')"
    and "decision = Double \<and> length (hs ! j) \<noteq> 2
         \<or> decision = Split \<and> \<not> (can_split (hs ! j) \<and> length hs < 4)"
  shows "turn_step decision i j hs (st\<lparr>rand := g'\<rparr>) = Inr (Again, hs, st\<lparr>rand := g'\<rparr>)"
    and "player_turn (Suc n) i j up_card hs st = player_turn n i j up_card hs (st\<lparr>rand := g'\<rparr>)"
proof -
  from assms(2) show ts: "turn_step decision i j hs (st\<lparr>rand := g'\<rparr>) = Inr (Again, hs, st\<lparr>rand := g'\<rparr>)"
    by (auto simp: turn_step_def Let_def)
  with assms(1) show "player_turn (Suc n) i j up_card hs st = player_turn n i j up_card hs (st\<lparr>rand := g'\<rparr>)"
    by (simp add: Let_def)
qed

lemma random_random_less_1: "fst (random_random g) < 1"
proof -
  have "outputs g (position g) mod 2 ^ 53 < (2 ^ 53 :: nat)" by simp
  then have "(of_nat (outputs g (position g) mod 2 ^ 53) :: rat) < of_nat (2 ^ 53)"
    by (rule of_nat_less_iff [THEN iffD2])
  then show ?thesis by (simp add: random_random_def)
qed

lemma make_decision_expert:
  assumes "1 \<le> skill_level p" "ml_model p = None"
  shows "make_decision p a h up g = (recommend_action a h up, snd (random_random g))"
proof -
  obtain r g' where r: "random_random g = (r, g')" by (cases "random_random g")
  with random_random_less_1 [of g] assms(1) have "r < skill_level p" by simp
  with r assms(2) show ?thesis by (simp add: make_decision_def skill_or_random_def)
qed

lemma recommend_split_eights:
  "card_value up \<noteq> 10 \<Longrightarrow> recommend_action a [Card Eight s1, Card Eight s2] up = Split"
  by (simp add: recommend_action_def basic_strategy_def split_table_def can_split_def hand_eval)

text \<open>
  So the loop need not make progress: a player of skill 1 without classifier, holding a
  pair of eights as one of four hands against an up-card that is not ten-valued, is
  recommended Split at every query, the split is refused at every query, and the loop
  is still running whatever the fuel.
\<close>

lemma player_turn_never_returns:
  assumes "1 \<le> skill_level (players st ! i)" "ml_model (players st ! i) = None"
    and "hs ! j = [Card Eight s1, Card Eight s2]" "4 \<le> length hs" "card_value up \<noteq> 10"
  shows "player_turn n i j up hs st = None"
  using assms(1,2)
proof (induction n arbitrary: st)
  case 0
  show ?case by simp
next
  case (Suc n)
  let ?g = "snd (random_random (rand st))"
  from make_decision_expert [OF Suc.prems] assms(3) recommend_split_eights [OF assms(5)]
  have md: "make_decision (players st ! i) (ais st (ai (players st ! i))) (hs ! j) up (rand st)
      = (Split, ?g)"
    by simp
  from assms(4) have "Split = Double \<and> length (hs ! j) \<noteq> 2
      \<or> Split = Split \<and> \<not> (can_split (hs ! j) \<and> length hs < 4)" by simp
  from illegal_request_step(2) [OF md this, of n]
  have "player_turn (Suc n) i j up hs st = player_turn n i j up hs (st\<lparr>rand := ?g\<rparr>)" .
  also have "\<dots> = None" using Suc.prems by (intro Suc.IH) simp_all
  finally show ?case .
qed

text \<open>
  Claim C5, as the code has it. A Double on a hand that does not have exactly two cards,
  and a Split on a hand that cannot be split or at four hands, change nothing: no card
  is drawn, no bet is changed, the hands stay as they are, and the loop goes round
  again, asking the decision policy anew. Nothing turns the request into a Hit.
\<close>

theorem illegal_double_split_asks_again:
  assumes "make_decision (players st ! i) (ais st (ai (players st ! i))) (hs ! j) up_card (rand st)
             = (decision, g')"
    and "decision = Double \<and> length (hs ! j) \<noteq> 2
         \<or> decision = Split \<and> \<not> (can_split (hs ! j) \<and> length hs < 4)"
  shows "turn_step decision i j hs (st\<lparr>rand := g'\<rparr>) = Inr (Again, hs, st\<lparr>rand := g'\<rparr>)
    \<and> player_turn (Suc n) i j up_card hs st = player_turn n i j up_card hs (st\<lparr>rand := g'\<rparr>)"
  using illegal_request_step [OF assms] by simp

theorem illegal_double_split_asks_again_witness:
  "make_decision (players one_seat ! 0) (ais one_seat (ai (players one_seat ! 0))) (four_eights ! 0)
       (Card Five Clubs) (rand one_seat) = (Split, \<lparr>outputs = (\<lambda>n. 0), position = 1\<rparr>)
   \<and> \<not> length four_eights < 4
   \<and> turn_step Split 0 0 four_eights (one_seat\<lparr>rand := \<lparr>outputs = (\<lambda>n. 0), position = 1\<rparr>\<rparr>)
       = Inr (Again, four_eights, one_seat\<lparr>rand := \<lparr>outputs = (\<lambda>n. 0), position = 1\<rparr>\<rparr>)
   \<and> player_turn (Suc 0) 0 0 (Card Five Clubs) four_eights one_seat = None"
proof -
  have md: "make_decision (players one_seat ! 0) (ais one_seat (ai (players one_seat ! 0)))
       (four_eights ! 0) (Card Five Clubs) (rand one_seat) = (Split, \<lparr>outputs = (\<lambda>n. 0), position = 1\<rparr>)"
    by (simp add: one_seat_def expert_def four_eights_def make_decision_def skill_or_random_def
        random_random_def recommend_split_eights card_value_def)
  have il: "Split = Double \<and> length (four_eights ! 0) \<noteq> 2
      \<or> Split = Split \<and> \<not> (can_split (four_eights ! 0) \<and> length four_eights < 4)"
    by (simp add: four_eights_def)
  from illegal_double_split_asks_again [OF md il, of 0] md show ?thesis
    by (simp add: four_eights_def)
qed

text \<open>
  Claim C5 as stated fails. At four hands a Split request leaves the table and the
  hands untouched and asks again, where a Hit would draw a card; and with the player
  of skill 1 above, the same refused Split comes back at every query: after 1000
  queries the loop has not returned.
\<close>

theorem split_at_cap_is_not_a_hit:
  "turn_step Split 0 0 four_eights one_seat = Inr (Again, four_eights, one_seat)
   \<and> turn_step Split 0 0 four_eights one_seat \<noteq> turn_step Hit 0 0 four_eights one_seat
   \<and> turn_step Double 0 0 [[Card Two Spades, Card Three Spades, Card Four Spades]] one_seat
       = Inr (Again, [[Card Two Spades, Card Three Spades, Card Four Spades]], one_seat)
   \<and> player_turn 1000 0 0 (Card Five Clubs) four_eights one_seat = None"
proof -
  have a: "turn_step Split 0 0 four_eights one_seat = Inr (Again, four_eights, one_seat)"
    by (simp add: turn_step_def four_eights_def)
  have "turn_step Hit 0 0 four_eights one_seat \<noteq> Inr (Again, four_eights, one_seat)"
    by (simp add: turn_step_def draw_from_def draw_def one_seat_def one_deck_ai_def expert_def
        four_eights_def fresh_cards_def RANKS_def SUITS_def hand_eval)
  with a have b: "turn_step Split 0 0 four_eights one_seat \<noteq> turn_step Hit 0 0 four_eights one_seat"
    by simp
  have c: "turn_step Double 0 0 [[Card Two Spades, Card Three Spades, Card Four Spades]] one_seat
       = Inr (Again, [[Card Two Spades, Card Three Spades, Card Four Spades]], one_seat)"
    by (simp add: turn_step_def)
  have d: "player_turn 1000 0 0 (Card Five Clubs) four_eights one_seat = None"
    by (rule player_turn_never_returns [where ?s1.0 = Spades and ?s2.0 = Hearts])
       (simp_all add: one_seat_def expert_def four_eights_def card_value_def)
  from a b c d show ?thesis by simp
qed

text \<open>
  A whole round that does not end. On the stacked shoe the player splits eights three
  times, holds four hands with a pair of eights in the first, and is recommended Split
  again at every later query: from 5 units of fuel on, the round is still running
  whatever the fuel.
\<close>

lemma stacked_round_never_returns: "play_round (5 + n) False stacked_table = None"
proof -
  have five: "5 + n = Suc (Suc (Suc (Suc (Suc n))))" by simp
  show ?thesis
    unfolding five
    by (simp add: stacked_table_def stacked_ai_def expert_def round_eval
        player_turn_never_returns [where ?s1.0 = Spades and ?s2.0 = Diamonds])
qed

section \<open>The decision policy\<close>

text \<open>
  Claim C8, as the code has it. Without a classifier one number is drawn: below the
  skill level the recommendation is emitted; otherwise \<^verbatim>\<open>random.choice\<close> picks, by a
  second random number, one of the four actions Hit, Stand, Double, Split, whether or
  not Double and Split are legal for the hand. With a classifier, a first draw below
  the skill level is followed by a second draw that selects the classifier's prediction
  (below 0.5) or the recommendation; a first draw at or above the skill level is
  followed by the decision without classifier, made with fresh draws.
\<close>

theorem make_decision_blend:
  assumes "make_decision p a h up g = (d, g')"
  shows "(ml_model p = None \<and> coming_random g 0 < skill_level p \<longrightarrow>
            d = recommend_action a h up \<and> position g' = position g + 1)
    \<and> (ml_model p = None \<and> \<not> coming_random g 0 < skill_level p \<longrightarrow>
            d = [Hit, Stand, Double, Split] ! (outputs g (position g + 1) mod 4)
            \<and> position g' = position g + 2)
    \<and> (\<forall>predict. ml_model p = Some predict \<and> coming_random g 0 < skill_level p \<longrightarrow>
            d = (if coming_random g 1 < 1 / 2
                 then predict [of_int (hand_value h), of_int (card_value up), true_count (card_counter a)]
                 else recommend_action a h up)
            \<and> position g' = position g + 2)
    \<and> (\<forall>predict. ml_model p = Some predict \<and> \<not> coming_random g 0 < skill_level p
            \<and> coming_random g 1 < skill_level p \<longrightarrow>
            d = recommend_action a h up \<and> position g' = position g + 2)
    \<and> (\<forall>predict. ml_model p = Some predict \<and> \<not> coming_random g 0 < skill_level p
            \<and> \<not> coming_random g 1 < skill_level p \<longrightarrow>
            d = [Hit, Stand, Double, Split] ! (outputs g (position g + 2) mod 4)
            \<and> position g' = position g + 3)
    \<and> outputs g' = outputs g"
  using assms
  by (auto simp: make_decision_def skill_or_random_def random_random_def random_choice_def
      randbelow_def coming_random_def Let_def split: option.splits if_splits)

lemma novice_draws_double:
  "make_decision novice one_deck_ai [Card Two Spades, Card Three Spades, Card Four Spades]
     (Card Five Clubs) high_then_two = (Double, high_then_two\<lparr>position := 2\<rparr>)"
  by (simp add: make_decision_def skill_or_random_def random_random_def random_choice_def
      randbelow_def novice_def high_then_two_def)

theorem make_decision_blend_witness:
  "make_decision novice one_deck_ai [Card Two Spades, Card Three Spades, Card Four Spades]
     (Card Five Clubs) high_then_two = (Double, high_then_two\<lparr>position := 2\<rparr>)
   \<and> ml_model novice = None \<and> \<not> coming_random high_then_two 0 < skill_level novice
   \<and> Double = [Hit, Stand, Double, Split] ! (outputs high_then_two (position high_then_two + 1) mod 4)"
  using make_decision_blend [OF novice_draws_double] novice_draws_double
  by (simp add: novice_def high_then_two_def coming_random_def)

text \<open>
  Claim C8 as stated fails: the random action is drawn from all four actions. Here a
  player of skill 0.5 without classifier draws a number above 0.5 and then the index
  2: the decision is Double on a hand of three cards, where Double is not legal.
  With a classifier that always predicts Stand and a first draw above the skill level,
  a second draw below it emits the recommendation (Hit), not a random action.
\<close>

theorem random_action_ignores_legality:
  "fst (make_decision novice one_deck_ai [Card Two Spades, Card Three Spades, Card Four Spades]
          (Card Five Clubs) high_then_two) = Double
   \<and> length [Card Two Spades, Card Three Spades, Card Four Spades] \<noteq> 2
   \<and> \<not> fst (random_random high_then_two) < skill_level novice
   \<and> \<not> fst (random_random zero_after_high) < skill_level novice
   \<and> fst (make_decision (novice\<lparr>ml_model := Some (\<lambda>features. Stand)\<rparr>) one_deck_ai
          [Card Two Spades, Card Three Spades, Card Four Spades] (Card Five Clubs) zero_after_high)
       = recommend_action one_deck_ai [Card Two Spades, Card Three Spades, Card Four Spades]
           (Card Five Clubs)
   \<and> recommend_action one_deck_ai [Card Two Spades, Card Three Spades, Card Four Spades]
           (Card Five Clubs) = Hit"
  by (simp add: make_decision_def skill_or_random_def random_random_def random_choice_def
      randbelow_def novice_def high_then_two_def zero_after_high_def one_deck_ai_def
      recommend_action_def basic_strategy_def can_split_def totals_table_def CardCounter_def
      hand_eval)

text \<open>
  In \<^verbatim>\<open>blackjack-player-simulation.py\<close> the random action is Hit or Stand, the two
  actions of its game.
\<close>

lemma hit_stand_make_decision_random:
  assumes "fst (hit_stand_make_decision skill cards tc h up g) = Inr (d, g')"
    and "\<not> fst (random_random g) < skill"
  shows "d = [Hit, Stand] ! (outputs g (position g + 1) mod 2) \<and> d \<in> {Hit, Stand}"
proof -
  obtain r g1 where r: "random_random g = (r, g1)" by (cases "random_random g")
  then have g1: "g1 = g\<lparr>position := position g + 1\<rparr>" by (simp add: random_random_def)
  from assms r have "(d, g') = random_choice [Hit, Stand] g1"
    by (auto simp: hit_stand_make_decision_def split: prod.splits sum.splits)
  with g1 have d: "d = [Hit, Stand] ! (outputs g (position g + 1) mod 2)"
    by (simp add: random_choice_def randbelow_def numeral_2_eq_2)
  have "outputs g (position g + 1) mod 2 = 0 \<or> outputs g (position g + 1) mod 2 = 1"
    by auto
  with d show ?thesis by auto
qed

end
